theory Spec2Isabelle
  imports Main
begin

section \<open>Version discovery\<close>

text \<open>
  \<^verbatim>\<open>MAX_VERSION_TO_CHECK = 8\<close>; \<^verbatim>\<open>_discover_all_versions\<close> probes the revisions
  \<^verbatim>\<open>range(1, min(MAX_VERSION_TO_CHECK, 20) + 1)\<close>.
\<close>

definition MAX_VERSION_TO_CHECK :: nat where
  "MAX_VERSION_TO_CHECK = 8"

definition max_v :: nat where
  "max_v = min MAX_VERSION_TO_CHECK 20"

text \<open>
  What \<^verbatim>\<open>fut.result()\<close> gives for one probe of \<^verbatim>\<open>_check_version_exists\<close>: \<^verbatim>\<open>True\<close>
  (status 200), \<^verbatim>\<open>False\<close> (any other status, or an exception caught inside the probe), or
  an exception of the future itself, which the loop swallows with \<^verbatim>\<open>pass\<close>.
\<close>

datatype probe_outcome = Exists | Missing | ProbeRaised

text \<open>
  The inner loop
  \<^verbatim>\<open>for v in range(1, max(results)+1): if v in results: contiguous.append(v) else: break\<close>
  over the remaining candidates.
\<close>

fun contiguous_loop :: "nat list \<Rightarrow> nat list \<Rightarrow> nat list" where
  "contiguous_loop results [] = []"
| "contiguous_loop results (v # vs) =
     (if v \<in> set results then v # contiguous_loop results vs else [])"

text \<open>
  \<^verbatim>\<open>_discover_all_versions\<close>. The futures complete in an order the scheduler picks:
  \<open>completion\<close> lists the probed revision numbers in the order \<^verbatim>\<open>as_completed\<close> yields
  them, \<open>probe v\<close> is the outcome of the probe of revision \<open>v\<close>, and \<open>recheck\<close> is the result
  of the separate call \<^verbatim>\<open>_check_version_exists(session, f"{arxiv_id}v1")\<close> at the end.
\<close>

definition discover_all_versions :: "nat list \<Rightarrow> (nat \<Rightarrow> probe_outcome) \<Rightarrow> bool \<Rightarrow> nat list" where
  "discover_all_versions completion probe recheck =
     (let results = sort (filter (\<lambda>v. probe v = Exists) completion);
          contiguous =
            (if results \<noteq> [] then contiguous_loop results [1 ..< Suc (Max (set results))]
             else [])
      in if contiguous \<noteq> [] then contiguous
         else if recheck then [1]
         else [])"

text \<open>The revisions the concurrent probes confirmed.\<close>

definition confirmed :: "(nat \<Rightarrow> probe_outcome) \<Rightarrow> nat set" where
  "confirmed probe = {v. 1 \<le> v \<and> v \<le> max_v \<and> probe v = Exists}"

text \<open>
  The spec's examples, with the probes completing out of order: confirmed \<open>{1,2,4}\<close> gives
  \<open>[1,2]\<close>, confirmed \<open>{1,3}\<close> gives \<open>[1]\<close>, confirmed \<open>{2,3}\<close> gives \<open>[]\<close> unless the
  re-check of revision 1 succeeds.
\<close>

definition probe_of :: "nat list \<Rightarrow> nat \<Rightarrow> probe_outcome" where
  "probe_of vs v = (if v \<in> set vs then Exists else Missing)"

section \<open>Strings and the regular expressions of the source\<close>

text \<open>
  Python strings are modelled as lists of Isabelle characters, read as the code points
  0 to 255. On these, \<^verbatim>\<open>\d\<close> matches the ten ASCII digits, \<^verbatim>\<open>\w\<close> matches the ASCII
  letters, digits and underscore and the alphanumeric code points of Latin-1, and
  \<^verbatim>\<open>str.strip()\<close> removes the twelve white-space code points below.
\<close>

definition is_digit :: "char \<Rightarrow> bool" where
  "is_digit c = (c \<in> set ''0123456789'')"

definition is_word :: "char \<Rightarrow> bool" where
  "is_word c =
     (let n = (of_char c :: nat)
      in (48 \<le> n \<and> n \<le> 57) \<or> (65 \<le> n \<and> n \<le> 90) \<or> n = 95 \<or> (97 \<le> n \<and> n \<le> 122) \<or>
         n \<in> {170, 178, 179, 181, 185, 186, 188, 189, 190} \<or>
         (192 \<le> n \<and> n \<le> 214) \<or> (216 \<le> n \<and> n \<le> 246) \<or> 248 \<le> n)"

definition is_space :: "char \<Rightarrow> bool" where
  "is_space c =
     (c \<in> set [CHR 0x09, CHR 0x0A, CHR 0x0B, CHR 0x0C, CHR 0x0D, CHR 0x1C, CHR 0x1D,
                CHR 0x1E, CHR 0x1F, CHR 0x20, CHR 0x85, CHR 0xA0])"

text \<open>\<^verbatim>\<open>s.strip()\<close>.\<close>

definition py_strip :: "string \<Rightarrow> string" where
  "py_strip s = rev (dropWhile is_space (rev (dropWhile is_space s)))"

text \<open>
  \<^verbatim>\<open>s.replace(old, new)\<close>: every occurrence of \<open>old\<close>, found from the left without
  overlap, becomes \<open>new\<close>. (For the empty \<open>old\<close> Python puts \<open>new\<close> around every character.)
\<close>

fun py_replace :: "string \<Rightarrow> string \<Rightarrow> string \<Rightarrow> string" where
  "py_replace old new [] = (if old = [] then new else [])"
| "py_replace old new (c # cs) =
     (if old = [] then new @ c # py_replace old new cs
      else if take (length old) (c # cs) = old
        then new @ py_replace old new (drop (length old - 1) cs)
      else c # py_replace old new cs)"

text \<open>\<^verbatim>\<open>sep in s\<close> and \<^verbatim>\<open>s.split(sep, 1)\<close> for a one-character separator that occurs in \<open>s\<close>.\<close>

definition split_first :: "char \<Rightarrow> string \<Rightarrow> string \<times> string" where
  "split_first sep s = (takeWhile (\<lambda>c. c \<noteq> sep) s, tl (dropWhile (\<lambda>c. c \<noteq> sep) s))"

text \<open>
  \<^verbatim>\<open>re.sub(r"v\d+$", "", s)\<close>. Without \<^verbatim>\<open>re.MULTILINE\<close>, \<^verbatim>\<open>$\<close> matches at the end of the
  string and also just before a newline that is the last character. A match of \<^verbatim>\<open>v\d+\<close> ends
  in a digit, so it ends at the end of \<open>s\<close>, or before the final newline of \<open>s\<close>; it starts at
  the \<^verbatim>\<open>v\<close> in front of the longest run of digits ending there. There is at most one match,
  and the final newline, when there is one, stays.
\<close>

definition sub_version_suffix :: "string \<Rightarrow> string" where
  "sub_version_suffix s =
     (let (body, nl) = (if s \<noteq> [] \<and> last s = CHR 0x0A then (butlast s, [CHR 0x0A]) else (s, []));
          ds = takeWhile is_digit (rev body);
          front = dropWhile is_digit (rev body)
      in if ds \<noteq> [] \<and> front \<noteq> [] \<and> hd front = CHR ''v'' then rev (tl front) @ nl else s)"

text \<open>
  \<^verbatim>\<open>format_yymm_id\<close>:
  \<^verbatim>\<open>
  arxiv_id = arxiv_id.replace("arXiv:", "").strip()
  arxiv_id = re.sub(r"v\d+$", "", arxiv_id)
  if "." in arxiv_id:
      prefix, num = arxiv_id.split(".", 1)
      return f"{prefix}-{num}"
  return arxiv_id
  \<close>
\<close>

definition format_yymm_id :: "string \<Rightarrow> string" where
  "format_yymm_id arxiv_id =
     (let a = py_strip (py_replace ''arXiv:'' [] arxiv_id);
          b = sub_version_suffix a
      in if CHR ''.'' \<in> set b
         then (case split_first CHR ''.'' b of (prefix, num) \<Rightarrow> prefix @ ''-'' @ num)
         else b)"

text \<open>
  The pattern of \<^verbatim>\<open>_is_valid_arxiv_id\<close>,
  \<^verbatim>\<open>^(\w+\.)?\d{2}(0[1-9]|1[0-2])\.\d{4,5}$\<close>, used with \<^verbatim>\<open>re.match\<close>.

  \<open>id_core\<close> is \<^verbatim>\<open>\d{2}(0[1-9]|1[0-2])\.\d{4,5}\<close> on a whole string; \<open>to_dollar\<close> is the
  anchor \<^verbatim>\<open>$\<close>: the rest of the string is matched up to its end, or up to its final newline.
  The optional group \<^verbatim>\<open>(\w+\.)?\<close> is tried first: \<^verbatim>\<open>\w+\<close> cannot stop before a word character
  (the next thing to match is a dot), so it takes the longest run of word characters at the
  start; when the group or what follows it fails, the pattern is tried without the group.
\<close>

definition month_ok :: "char \<Rightarrow> char \<Rightarrow> bool" where
  "month_ok m1 m2 =
     ((m1 = CHR ''0'' \<and> m2 \<in> set ''123456789'') \<or> (m1 = CHR ''1'' \<and> m2 \<in> set ''012''))"

fun id_core :: "string \<Rightarrow> bool" where
  "id_core (y1 # y2 # m1 # m2 # dot # ds) =
     (is_digit y1 \<and> is_digit y2 \<and> month_ok m1 m2 \<and> dot = CHR ''.'' \<and>
      (length ds = 4 \<or> length ds = 5) \<and> list_all is_digit ds)"
| "id_core _ = False"

definition to_dollar :: "(string \<Rightarrow> bool) \<Rightarrow> string \<Rightarrow> bool" where
  "to_dollar P s = (P s \<or> (s \<noteq> [] \<and> last s = CHR 0x0A \<and> P (butlast s)))"

definition id_pattern :: "string \<Rightarrow> bool" where
  "id_pattern s =
     (let w = takeWhile is_word s; r = dropWhile is_word s
      in (w \<noteq> [] \<and> r \<noteq> [] \<and> hd r = CHR ''.'' \<and> to_dollar id_core (tl r)) \<or>
         to_dollar id_core s)"

text \<open>
  \<^verbatim>\<open>_is_valid_arxiv_id\<close>:
  \<^verbatim>\<open>
  if not arxiv_id: return False
  base = re.sub(r'v\d+$', '', arxiv_id)
  return bool(re.match(pattern, base))
  \<close>
\<close>

definition is_valid_arxiv_id :: "string \<Rightarrow> bool" where
  "is_valid_arxiv_id arxiv_id =
     (if arxiv_id = [] then False else id_pattern (sub_version_suffix arxiv_id))"

section \<open>Run statistics\<close>

text \<open>
  The integer counters of \<^verbatim>\<open>self.stats\<close>. The timing sums, the sample lists and the
  counters \<^verbatim>\<open>total_references\<close> and \<^verbatim>\<open>version_checks\<close> take no part in any decision of
  the program and are left out.
\<close>

record stats =
  papers_attempted :: nat
  papers_successful :: nat
  papers_failed :: nat
  references_found :: nat
  references_with_arxiv :: nat
  ss_requests_made :: nat
  ss_rate_limit_hits :: nat
  ss_errors :: nat
  versions_found :: nat
  versions_downloaded :: nat
  files_removed :: nat

definition init_stats :: stats where
  "init_stats = \<lparr>papers_attempted = 0, papers_successful = 0, papers_failed = 0,
     references_found = 0, references_with_arxiv = 0,
     ss_requests_made = 0, ss_rate_limit_hits = 0, ss_errors = 0, versions_found = 0,
     versions_downloaded = 0, files_removed = 0\<rparr>"

section \<open>The citation-graph service\<close>

text \<open>The exceptions that the functions below raise or catch.\<close>

datatype error = OSError | TypeError | AttributeError

text \<open>
  A JSON value where the code expects a string: \<^verbatim>\<open>null\<close> (or a missing key), a string, a
  number, a boolean, or a list or object (with whether it is non-empty). \<open>py_truth\<close> is
  Python's truth value of it. Only a string has the method \<^verbatim>\<open>strip\<close>: on any other value
  that is not \<^verbatim>\<open>None\<close> the call raises \<^verbatim>\<open>AttributeError\<close>.
\<close>

datatype jvalue = JNull | JString string | JNumber int | JBool bool | JCompound bool

definition py_truth :: "jvalue \<Rightarrow> bool" where
  "py_truth v =
     (case v of JNull \<Rightarrow> False | JString s \<Rightarrow> s \<noteq> [] | JNumber n \<Rightarrow> n \<noteq> 0 | JBool b \<Rightarrow> b
      | JCompound nonempty \<Rightarrow> nonempty)"

text \<open>
  One raw reference entry of the citation-graph response, with the fields the code reads and
  the JSON types the service gives them; \<open>None\<close> stands for a missing or \<^verbatim>\<open>null\<close> field.
  \<open>ref_authors\<close> lists, for each author object, its \<^verbatim>\<open>name\<close>.
\<close>

record reference =
  ref_externalIds :: "(string \<rightharpoonup> string) option"
  ref_url :: "string option"
  ref_title :: "string option"
  ref_authors :: "string option list"
  ref_publicationDate :: "string option"
  ref_year :: "int option"
  ref_paperId :: "string option"

text \<open>
  The paper-level response: \<open>ss_publicationVenue\<close> is \<open>Some n\<close> when the field is an object
  whose \<^verbatim>\<open>name\<close> is the JSON value \<open>n\<close>, and \<open>None\<close> when the field is not an object;
  \<open>ss_venue\<close> is \<open>Some s\<close> when the field is the string \<open>s\<close> and \<open>None\<close> otherwise; an
  element of \<open>ss_references\<close> is \<open>None\<close> when it is not an object.
\<close>

record ss_data =
  ss_publicationVenue :: "jvalue option"
  ss_venue :: "string option"
  ss_references :: "reference option list"

text \<open>
  A parsed response body: the empty object \<^verbatim>\<open>{}\<close>, an object with fields, or a JSON value
  that is not an object (with its truth value).
\<close>

datatype ss_json = JEmpty | JData ss_data | JOther bool

text \<open>
  What one HTTP request of a call gets: a response with its status code and what
  \<^verbatim>\<open>resp.json()\<close> would give (\<open>None\<close> when parsing raises), or a network error.
\<close>

datatype attempt = Response nat "ss_json option" | NetworkError

datatype get_result = Got nat "ss_json option" | GetRaised

text \<open>
  The session of \<^verbatim>\<open>ArxivScraper.__init__\<close> mounts an adapter with
  \<^verbatim>\<open>Retry(total=2, backoff_factor=0.5, status_forcelist=[429, 500, 502, 503, 504])\<close>.
\<close>

definition retry_total :: nat where
  "retry_total = 2"

definition status_forcelist :: "nat list" where
  "status_forcelist = [429, 500, 502, 503, 504]"

text \<open>
  \<^verbatim>\<open>session.get(url, ...)\<close> through that adapter. \<open>server i\<close> is what the \<open>i\<close>-th request
  of the call gets. A network error or a response whose status is in the force list is
  sent again while retries are left; when they are used up the adapter raises (urllib3's
  \<^verbatim>\<open>MaxRetryError\<close>, since \<^verbatim>\<open>raise_on_status\<close> keeps its default). Any other response is
  handed to the caller. The result comes with the number of requests sent.
\<close>

fun session_get :: "nat \<Rightarrow> (nat \<Rightarrow> attempt) \<Rightarrow> nat \<Rightarrow> get_result \<times> nat" where
  "session_get left server i =
     (case server i of
        Response st body \<Rightarrow>
          if st \<in> set status_forcelist
          then (case left of 0 \<Rightarrow> (GetRaised, Suc i) | Suc n \<Rightarrow> session_get n server (Suc i))
          else (Got st body, Suc i)
      | NetworkError \<Rightarrow>
          (case left of 0 \<Rightarrow> (GetRaised, Suc i) | Suc n \<Rightarrow> session_get n server (Suc i)))"

text \<open>
  The body of \<^verbatim>\<open>_ss_get_cached\<close>, run when the \<^verbatim>\<open>lru_cache\<close> has no entry for the
  arguments (a cache hit sends no request and returns the stored result). The result
  \<open>None\<close> is Python's \<^verbatim>\<open>None\<close>. Waiting in the rate limiter takes time only.
  \<^verbatim>\<open>
  self.stats['ss_requests_made'] += 1
  try:
      resp = self.session.get(url, params={'fields': fields}, timeout=self.session_timeout)
      if resp.status_code == 200: return resp.json()
      elif resp.status_code == 429:
          self.stats['ss_rate_limit_hits'] += 1
          return None
      elif resp.status_code == 404: return {}
      else: return {}
  except Exception as e:
      self.stats['ss_errors'] += 1
      return None
  \<close>
  The third component is the number of HTTP requests the call sent.
\<close>

definition ss_get_cached :: "stats \<Rightarrow> (nat \<Rightarrow> attempt) \<Rightarrow> ss_json option \<times> stats \<times> nat" where
  "ss_get_cached st server =
     (let st1 = st\<lparr>ss_requests_made := ss_requests_made st + 1\<rparr>
      in case session_get retry_total server 0 of
           (Got code body, n) \<Rightarrow>
             if code = 200 then
               (case body of
                  Some j \<Rightarrow> (Some j, st1, n)
                | None \<Rightarrow> (None, st1\<lparr>ss_errors := ss_errors st1 + 1\<rparr>, n))
             else if code = 429 then
               (None, st1\<lparr>ss_rate_limit_hits := ss_rate_limit_hits st1 + 1\<rparr>, n)
             else if code = 404 then (Some JEmpty, st1, n)
             else (Some JEmpty, st1, n)
         | (GetRaised, n) \<Rightarrow> (None, st1\<lparr>ss_errors := ss_errors st1 + 1\<rparr>, n))"

text \<open>Servers for the examples: the replies in \<open>as\<close>, then status 200 with an empty object.\<close>

definition replies :: "attempt list \<Rightarrow> nat \<Rightarrow> attempt" where
  "replies as i = (if i < length as then as ! i else Response 200 (Some JEmpty))"
definition venue_only :: ss_data where
  "venue_only = \<lparr>ss_publicationVenue = None, ss_venue = Some ''NeurIPS'', ss_references = []\<rparr>"

section \<open>Reference extraction\<close>

text \<open>Python truthiness of a string field that may be \<^verbatim>\<open>None\<close>.\<close>

definition truthy :: "string option \<Rightarrow> bool" where
  "truthy v = (case v of None \<Rightarrow> False | Some s \<Rightarrow> s \<noteq> [])"

text \<open>The decimal digits of a number, for the f-strings of the source.\<close>

fun string_of_nat :: "nat \<Rightarrow> string" where
  "string_of_nat n =
     (if n < 10 then [char_of (48 + n)]
      else string_of_nat (n div 10) @ [char_of (48 + n mod 10)])"

text \<open>\<^verbatim>\<open>sub in s\<close> for strings.\<close>

fun contains :: "string \<Rightarrow> string \<Rightarrow> bool" where
  "contains sub [] = (sub = [])"
| "contains sub (c # cs) = (take (length sub) (c # cs) = sub \<or> contains sub cs)"

text \<open>
  The two URL patterns \<^verbatim>\<open>arxiv\.org/abs/([\d\.]+v?\d*)\<close> and
  \<^verbatim>\<open>arxiv\.org/pdf/([\d\.]+v?\d*)\<close>, used with \<^verbatim>\<open>re.search\<close> and \<^verbatim>\<open>re.IGNORECASE\<close>.
  Ignoring case, a letter of the pattern matches itself and its ASCII capital.

  \<open>capture_id\<close> is the group at the start of a string: the longest run of digits and
  dots, which must not be empty, then a \<^verbatim>\<open>v\<close> or \<^verbatim>\<open>V\<close> if one follows, then the digits after
  it. Nothing follows the group in the pattern, so the greedy choice is the match.
  \<open>re_search_url lit\<close> finds the leftmost position where the literal part \<open>lit\<close> and then
  the group match, and gives the group.
\<close>

definition to_lower :: "char \<Rightarrow> char" where
  "to_lower c = (let n = (of_char c :: nat) in if 65 \<le> n \<and> n \<le> 90 then char_of (n + 32) else c)"

definition ci_prefix :: "string \<Rightarrow> string \<Rightarrow> bool" where
  "ci_prefix lit s = (map to_lower (take (length lit) s) = lit)"

definition capture_id :: "string \<Rightarrow> string option" where
  "capture_id r =
     (let run = takeWhile (\<lambda>c. is_digit c \<or> c = CHR ''.'') r;
          r1 = dropWhile (\<lambda>c. is_digit c \<or> c = CHR ''.'') r
      in if run = [] then None
         else Some (run @
           (case r1 of
              [] \<Rightarrow> []
            | c # r2 \<Rightarrow> if to_lower c = CHR ''v'' then c # takeWhile is_digit r2 else [])))"

fun re_search_url :: "string \<Rightarrow> string \<Rightarrow> string option" where
  "re_search_url lit [] = None"
| "re_search_url lit (c # cs) =
     (if ci_prefix lit (c # cs) then
        (case capture_id (drop (length lit) (c # cs)) of
           Some g \<Rightarrow> Some g
         | None \<Rightarrow> re_search_url lit cs)
      else re_search_url lit cs)"

text \<open>
  The loop \<^verbatim>\<open>for key in ('ArXiv','arXiv','arxiv','ARXIV'): v = ext_ids.get(key); if v: return v\<close>.
\<close>

fun lookup_keys :: "(string \<rightharpoonup> string) \<Rightarrow> string list \<Rightarrow> string option" where
  "lookup_keys ext_ids [] = None"
| "lookup_keys ext_ids (key # keys) =
     (if truthy (ext_ids key) then ext_ids key else lookup_keys ext_ids keys)"

text \<open>
  \<^verbatim>\<open>_extract_arxiv_id_comprehensive\<close>:
  \<^verbatim>\<open>
  ext_ids = ref.get('externalIds', {})
  if isinstance(ext_ids, dict):
      for key in ('ArXiv','arXiv','arxiv','ARXIV'): ...
  url = ref.get('url','') or ''
  if url and 'arxiv.org' in url:
      patterns = [r'arxiv\.org/abs/([\d\.]+v?\d*)', r'arxiv\.org/pdf/([\d\.]+v?\d*)']
      for p in patterns:
          m = re.search(p, url, re.IGNORECASE)
          if m: return m.group(1)
  return None
  \<close>
\<close>

definition extract_arxiv_id_comprehensive :: "reference \<Rightarrow> string option" where
  "extract_arxiv_id_comprehensive ref =
     (case (case ref_externalIds ref of
              Some ext_ids \<Rightarrow> lookup_keys ext_ids [''ArXiv'', ''arXiv'', ''arxiv'', ''ARXIV'']
            | None \<Rightarrow> None) of
        Some v \<Rightarrow> Some v
      | None \<Rightarrow>
          (let url = (case ref_url ref of Some u \<Rightarrow> u | None \<Rightarrow> [])
           in if url \<noteq> [] \<and> contains ''arxiv.org'' url then
                (case re_search_url ''arxiv.org/abs/'' url of
                   Some g \<Rightarrow> Some g
                 | None \<Rightarrow> re_search_url ''arxiv.org/pdf/'' url)
              else None))"

text \<open>One record of the reference mapping.\<close>

record reference_metadata =
  rm_paper_title :: string
  rm_authors :: "string list"
  rm_submission_date :: string
  rm_semantic_scholar_id :: "string option"

text \<open>
  \<^verbatim>\<open>_build_reference_metadata_accurate\<close>. \<open>scrape\<close> is what
  \<^verbatim>\<open>_get_submission_date_from_arxiv\<close> returns for an id (the empty string on any failure);
  it is called only when the reference has no publication date. The year is used only when
  both gave nothing. With the field types above nothing in the body raises, and the result
  is \<^verbatim>\<open>None\<close> exactly through \<^verbatim>\<open>if not metadata['paper_title']: return None\<close>.
\<close>

definition build_reference_metadata_accurate ::
    "(string \<Rightarrow> string) \<Rightarrow> reference \<Rightarrow> string \<Rightarrow> reference_metadata option" where
  "build_reference_metadata_accurate scrape ref arxiv_ref_id =
     (let authors = [py_strip n. Some n \<leftarrow> ref_authors ref, n \<noteq> [] \<and> py_strip n \<noteq> []];
          pub_date = (case ref_publicationDate ref of Some d \<Rightarrow> d | None \<Rightarrow> []);
          d1 = (if pub_date \<noteq> [] \<and> py_strip pub_date \<noteq> [] then py_strip pub_date else []);
          d2 = (if d1 = [] then scrape arxiv_ref_id else d1);
          d3 = (if d2 = [] then
                  (case ref_year ref of
                     Some y \<Rightarrow> if 1990 \<le> y \<and> y \<le> 2030 then string_of_nat (nat y) @ ''-01-01'' else []
                   | None \<Rightarrow> [])
                else d2);
          title = (case ref_title ref of Some t \<Rightarrow> t | None \<Rightarrow> [])
      in if title = [] then None
         else Some \<lparr>rm_paper_title = title, rm_authors = authors, rm_submission_date = d3,
                rm_semantic_scholar_id = (if truthy (ref_paperId ref) then ref_paperId ref else None)\<rparr>)"

text \<open>
  The loop over the raw references in \<^verbatim>\<open>_fetch_references_and_paper_venue\<close>:
  \<^verbatim>\<open>
  for i, ref in enumerate(refs):
      if not isinstance(ref, dict): continue
      arxiv_ref_id = self._extract_arxiv_id_comprehensive(ref, i)
      if arxiv_ref_id and self._is_valid_arxiv_id(arxiv_ref_id):
          arxiv_refs_count += 1
          formatted_ref_id = format_yymm_id(arxiv_ref_id)
          ref_data = self._build_reference_metadata_accurate(ref, arxiv_ref_id)
          if ref_data:
              references[formatted_ref_id] = ref_data
  \<close>
\<close>

fun references_loop ::
    "(string \<Rightarrow> string) \<Rightarrow> reference option list \<Rightarrow> (string \<rightharpoonup> reference_metadata) \<Rightarrow> nat \<Rightarrow>
     (string \<rightharpoonup> reference_metadata) \<times> nat" where
  "references_loop scrape [] references arxiv_refs_count = (references, arxiv_refs_count)"
| "references_loop scrape (None # refs) references arxiv_refs_count =
     references_loop scrape refs references arxiv_refs_count"
| "references_loop scrape (Some ref # refs) references arxiv_refs_count =
     (case extract_arxiv_id_comprehensive ref of
        None \<Rightarrow> references_loop scrape refs references arxiv_refs_count
      | Some arxiv_ref_id \<Rightarrow>
          if arxiv_ref_id \<noteq> [] \<and> is_valid_arxiv_id arxiv_ref_id then
            (case build_reference_metadata_accurate scrape ref arxiv_ref_id of
               Some ref_data \<Rightarrow>
                 references_loop scrape refs
                   (references(format_yymm_id arxiv_ref_id \<mapsto> ref_data)) (Suc arxiv_refs_count)
             | None \<Rightarrow> references_loop scrape refs references (Suc arxiv_refs_count))
          else references_loop scrape refs references arxiv_refs_count)"

text \<open>
  \<^verbatim>\<open>if nm and nm.strip(): ... = nm.strip()\<close> for the \<^verbatim>\<open>name\<close> of a publication venue: the
  stripped name when it is a string that is not blank, nothing when the value is falsy or
  blank, and \<^verbatim>\<open>AttributeError\<close> when it is truthy and not a string.
\<close>

definition venue_name :: "jvalue \<Rightarrow> error + string option" where
  "venue_name nm =
     (case nm of
        JString s \<Rightarrow> Inr (if s \<noteq> [] \<and> py_strip s \<noteq> [] then Some (py_strip s) else None)
      | _ \<Rightarrow> if py_truth nm then Inl AttributeError else Inr None)"

text \<open>
  The venue of the paper in \<^verbatim>\<open>_fetch_references_and_paper_venue\<close>: the stripped name of
  \<^verbatim>\<open>publicationVenue\<close> when there is one, else the stripped \<^verbatim>\<open>venue\<close> string when it is
  not blank, else \<^verbatim>\<open>None\<close>.
  \<^verbatim>\<open>
  pubv = data.get('publicationVenue')
  if isinstance(pubv, dict):
      nm = pubv.get('name')
      if nm and nm.strip(): paper_venue = nm.strip()
  if not paper_venue:
      vs = data.get('venue')
      if isinstance(vs, str) and vs.strip(): paper_venue = vs.strip()
  \<close>
\<close>

definition paper_venue_of :: "ss_data \<Rightarrow> error + string option" where
  "paper_venue_of d =
     (case (case ss_publicationVenue d of Some nm \<Rightarrow> venue_name nm | None \<Rightarrow> Inr None) of
        Inl e \<Rightarrow> Inl e
      | Inr v1 \<Rightarrow>
          Inr (if \<not> truthy v1 then
                 (case ss_venue d of
                    Some vs \<Rightarrow> if py_strip vs \<noteq> [] then Some (py_strip vs) else None
                  | None \<Rightarrow> None)
               else v1))"

text \<open>
  \<^verbatim>\<open>_fetch_references_and_paper_venue\<close>, given what the citation-graph server answers.
  A \<^verbatim>\<open>None\<close> or falsy result of \<^verbatim>\<open>_ss_get_cached\<close> gives \<^verbatim>\<open>({}, None)\<close>. The function has
  no \<^verbatim>\<open>try\<close>: on a truthy body that is not an object \<^verbatim>\<open>data.get\<close> raises, and so does
  \<^verbatim>\<open>nm.strip()\<close> on a venue name that is not a string; the exception leaves the function
  before the references are read.
\<close>

definition fetch_references_and_paper_venue ::
    "stats \<Rightarrow> (nat \<Rightarrow> attempt) \<Rightarrow> (string \<Rightarrow> string) \<Rightarrow>
     (error + (string \<rightharpoonup> reference_metadata) \<times> string option) \<times> stats" where
  "fetch_references_and_paper_venue st server scrape =
     (case ss_get_cached st server of
        (None, st1, n) \<Rightarrow> (Inr (Map.empty, None), st1)
      | (Some JEmpty, st1, n) \<Rightarrow> (Inr (Map.empty, None), st1)
      | (Some (JOther truth), st1, n) \<Rightarrow>
          if truth then (Inl AttributeError, st1) else (Inr (Map.empty, None), st1)
      | (Some (JData d), st1, n) \<Rightarrow>
          (case paper_venue_of d of
             Inl e \<Rightarrow> (Inl e, st1)
           | Inr paper_venue \<Rightarrow>
              (let refs = ss_references d;
                   st2 = st1\<lparr>references_found := references_found st1 + length refs\<rparr>;
                   (references, arxiv_refs_count) = references_loop scrape refs Map.empty 0;
                   st3 = st2\<lparr>references_with_arxiv := references_with_arxiv st2 + arxiv_refs_count\<rparr>
               in (Inr (references, paper_venue), st3))))"

text \<open>The reference mapping that a call returns; nothing when the call raises.\<close>

definition returned_references ::
    "(error + (string \<rightharpoonup> reference_metadata) \<times> string option) \<times> stats \<Rightarrow>
     (string \<rightharpoonup> reference_metadata)" where
  "returned_references r = (case fst r of Inr (references, venue) \<Rightarrow> references | Inl e \<Rightarrow> Map.empty)"

text \<open>
  The condition on an id in the words of the specification: strip a trailing \<open>vK\<close>, then
  the whole rest is an optional subject-class prefix ending in a dot, a two-digit year, a
  month 01 to 12, a dot, and four or five digits.
\<close>

definition spec_strip_vK :: "string \<Rightarrow> string" where
  "spec_strip_vK s =
     (let ds = takeWhile is_digit (rev s); front = dropWhile is_digit (rev s)
      in if ds \<noteq> [] \<and> front \<noteq> [] \<and> hd front = CHR ''v'' then rev (tl front) else s)"

definition spec_id_format :: "string \<Rightarrow> bool" where
  "spec_id_format s =
     (id_core s \<or>
      (let w = takeWhile (\<lambda>c. c \<noteq> CHR ''.'') s; r = dropWhile (\<lambda>c. c \<noteq> CHR ''.'') s
       in w \<noteq> [] \<and> list_all is_word w \<and> r \<noteq> [] \<and> id_core (tl r)))"

text \<open>The conditions (a), (b) as the code checks them and (c), for a reference and an id.\<close>

definition contributes :: "reference \<Rightarrow> string \<Rightarrow> bool" where
  "contributes ref i =
     (extract_arxiv_id_comprehensive ref = Some i \<and> is_valid_arxiv_id i \<and> truthy (ref_title ref))"

text \<open>References for the examples.\<close>

definition ref_with_id :: "string \<Rightarrow> string option \<Rightarrow> reference" where
  "ref_with_id i t = \<lparr>ref_externalIds = Some [''ArXiv'' \<mapsto> i], ref_url = None, ref_title = t,
     ref_authors = [], ref_publicationDate = Some ''2024-01-01'', ref_year = None,
     ref_paperId = None\<rparr>"

definition ref_with_url :: "string \<Rightarrow> string option \<Rightarrow> reference" where
  "ref_with_url u t = \<lparr>ref_externalIds = None, ref_url = Some u, ref_title = t,
     ref_authors = [], ref_publicationDate = Some ''2024-01-01'', ref_year = None,
     ref_paperId = None\<rparr>"

text \<open>The normalized ids of the references of a list that meet the three conditions.\<close>

definition reference_keys :: "reference option list \<Rightarrow> string set" where
  "reference_keys refs =
     {format_yymm_id i | ref i. Some ref \<in> set refs \<and> contributes ref i}"

text \<open>A server that answers the first request with status 200 and these references.\<close>

definition response_with :: "reference option list \<Rightarrow> nat \<Rightarrow> attempt" where
  "response_with refs =
     replies [Response 200 (Some (JData \<lparr>ss_publicationVenue = None, ss_venue = None,
       ss_references = refs\<rparr>))]"

section \<open>Archive download\<close>

text \<open>
  What the environment does to the download of one revision:
  \<^item> \<open>mkdir_ok\<close>: \<^verbatim>\<open>ensure_dir(version_dir)\<close> returns (it raises otherwise);
  \<^item> \<open>eprint\<close>: what \<^verbatim>\<open>session.get\<close> gives in \<^verbatim>\<open>download_eprint_session\<close>: a response
    with its status code, and whether writing the body to the archive file goes through,
    or an exception;
  \<^item> \<open>saved_exists\<close>: \<^verbatim>\<open>saved.exists()\<close>;
  \<^item> \<open>extraction\<close>: \<open>None\<close> when opening, extracting, flattening or cleaning raises, and
    \<open>Some removed\<close> with the number of files removed otherwise.
\<close>

datatype eprint_reply = EprintResponse nat bool | EprintException

record version_env =
  mkdir_ok :: bool
  eprint :: eprint_reply
  saved_exists :: bool
  extraction :: "nat option"

text \<open>
  \<^verbatim>\<open>download_eprint_session\<close>: the path of the archive when the status is 200 and the file
  is written; \<^verbatim>\<open>None\<close> for any other status and for any exception.
\<close>

definition download_eprint_session :: "eprint_reply \<Rightarrow> string \<Rightarrow> string option" where
  "download_eprint_session reply dest =
     (case reply of
        EprintResponse status written \<Rightarrow>
          if status = 200 then (if written then Some dest else None) else None
      | EprintException \<Rightarrow> None)"

text \<open>
  \<^verbatim>\<open>_download_and_process_version\<close>:
  \<^verbatim>\<open>
  ensure_dir(version_dir)
  tar_path = tex_root / f"{version_folder}.tar.gz"
  saved = download_eprint_session(self.session, version_id, tar_path)
  if saved and saved.exists():
      try:
          (open, extractall, flatten_directory, remove_non_tex_bib)
          self.stats['files_removed'] += removed
          return True
      except Exception as e:
          return False
      finally: (unlink the archive)
  else:
      return False
  \<close>
\<close>

definition download_and_process_version ::
    "stats \<Rightarrow> version_env \<Rightarrow> string \<Rightarrow> (error + bool) \<times> stats" where
  "download_and_process_version st env tar_path =
     (if \<not> mkdir_ok env then (Inl OSError, st)
      else case download_eprint_session (eprint env) tar_path of
             None \<Rightarrow> (Inr False, st)
           | Some saved \<Rightarrow>
               if saved_exists env then
                 (case extraction env of
                    Some removed \<Rightarrow> (Inr True, st\<lparr>files_removed := files_removed st + removed\<rparr>)
                  | None \<Rightarrow> (Inr False, st))
               else (Inr False, st))"

text \<open>
  The loop over the completed futures in \<^verbatim>\<open>_download_versions_concurrently\<close>:
  \<^verbatim>\<open>
  for fut in as_completed(future_to_vi):
      try:
          ok = fut.result()
          if ok:
              successful_versions += 1
              self.stats['versions_downloaded'] += 1
      except Exception as e: (logged)
  \<close>
  The list holds, in the order of completion, the archive path and the environment of each
  submitted revision.
\<close>

fun completed_loop :: "stats \<Rightarrow> (string \<times> version_env) list \<Rightarrow> nat \<Rightarrow> nat \<times> stats" where
  "completed_loop st [] successful_versions = (successful_versions, st)"
| "completed_loop st ((tar_path, env) # rest) successful_versions =
     (case download_and_process_version st env tar_path of
        (Inr True, st1) \<Rightarrow>
          completed_loop (st1\<lparr>versions_downloaded := versions_downloaded st1 + 1\<rparr>) rest
            (successful_versions + 1)
      | (Inr False, st1) \<Rightarrow> completed_loop st1 rest successful_versions
      | (Inl e, st1) \<Rightarrow> completed_loop st1 rest successful_versions)"

text \<open>
  \<^verbatim>\<open>_download_versions_concurrently\<close>. \<open>tex_root_ok\<close> says that \<^verbatim>\<open>ensure_dir(tex_root)\<close>
  returns; when it raises, the exception leaves the function.
\<close>

definition download_versions_concurrently ::
    "stats \<Rightarrow> bool \<Rightarrow> (string \<times> version_env) list \<Rightarrow> (error + nat) \<times> stats" where
  "download_versions_concurrently st tex_root_ok completed =
     (if \<not> tex_root_ok then (Inl OSError, st)
      else case completed_loop st completed 0 of (n, st1) \<Rightarrow> (Inr n, st1))"

text \<open>
  The download of a revision succeeds when its directory is made, the response has status
  200 and the archive is written and found; its extraction succeeds when it does not raise.
\<close>

definition download_succeeded :: "version_env \<Rightarrow> bool" where
  "download_succeeded env =
     (mkdir_ok env \<and> eprint env = EprintResponse 200 True \<and> saved_exists env)"

definition extraction_succeeded :: "version_env \<Rightarrow> bool" where
  "extraction_succeeded env = (extraction env \<noteq> None)"

definition revision_ok :: "string \<times> version_env \<Rightarrow> bool" where
  "revision_ok x = (download_succeeded (snd x) \<and> extraction_succeeded (snd x))"

text \<open>Environments for the examples.\<close>

definition good_version :: version_env where
  "good_version = \<lparr>mkdir_ok = True, eprint = EprintResponse 200 True, saved_exists = True,
     extraction = Some 3\<rparr>"

definition missing_version :: version_env where
  "missing_version = \<lparr>mkdir_ok = True, eprint = EprintResponse 404 False, saved_exists = False,
     extraction = None\<rparr>"

definition broken_archive :: version_env where
  "broken_archive = \<lparr>mkdir_ok = True, eprint = EprintResponse 200 True, saved_exists = True,
     extraction = None\<rparr>"

section \<open>Metadata fetch\<close>

text \<open>
  The entry of the primary metadata source, with the attributes the code reads.
  \<open>p_published\<close> is the formatted date, \<open>None\<close> when the entry has no such attribute.
\<close>

record paper =
  p_title :: string
  p_authors :: "string list"
  p_published :: "string option"
  p_journal_ref :: "string option"

text \<open>
  What \<^verbatim>\<open>next(arxiv.Search(id_list=[arxiv_id]).results())\<close> does: it gives the entry, raises
  \<^verbatim>\<open>StopIteration\<close> when there is none, or raises another exception.
\<close>

datatype primary_lookup = Entry paper | NoEntry | LookupRaised

text \<open>
  The environment of one call of \<^verbatim>\<open>_fetch_metadata_with_complete_versions\<close>: the primary
  lookup, the probes of version discovery, the citation-graph server for the venue query,
  and what \<^verbatim>\<open>_scrape_version_dates_light\<close> returns (the empty list on any failure: its whole
  body is inside \<^verbatim>\<open>try\<close>).
\<close>

record meta_env =
  m_primary :: primary_lookup
  m_completion :: "nat list"
  m_probe :: "nat \<Rightarrow> probe_outcome"
  m_recheck :: bool
  m_venue_server :: "nat \<Rightarrow> attempt"
  m_scraped_dates :: "string list"

text \<open>The metadata record; \<open>revised_dates\<close> is \<open>None\<close> when the key is not set.\<close>

record metadata =
  paper_title :: string
  authors :: "string list"
  submission_date :: string
  publication_venue :: string
  revised_dates :: "string list option"

text \<open>
  The venue from the citation-graph data in \<^verbatim>\<open>_fetch_metadata_with_complete_versions\<close>:
  \<^verbatim>\<open>
  if data:
      pubv = data.get('publicationVenue')
      if isinstance(pubv, dict):
          nm = pubv.get('name')
          if nm and nm.strip(): metadata['publication_venue'] = nm.strip()
      elif isinstance(data.get('venue'), str) and data.get('venue').strip():
          metadata['publication_venue'] = data.get('venue').strip()
  \<close>
\<close>

definition venue_of_data :: "ss_json option \<Rightarrow> error + string" where
  "venue_of_data data =
     (case data of
        Some (JData d) \<Rightarrow>
          (case ss_publicationVenue d of
             Some nm \<Rightarrow>
               (case venue_name nm of
                  Inl e \<Rightarrow> Inl e
                | Inr (Some v) \<Rightarrow> Inr v
                | Inr None \<Rightarrow> Inr [])
           | None \<Rightarrow>
               (case ss_venue d of
                  Some vs \<Rightarrow> Inr (if py_strip vs \<noteq> [] then py_strip vs else [])
                | None \<Rightarrow> Inr []))
      | Some (JOther truth) \<Rightarrow> if truth then Inl AttributeError else Inr []
      | _ \<Rightarrow> Inr [])"

text \<open>
  \<^verbatim>\<open>_fetch_metadata_with_complete_versions\<close>. The whole body is inside \<^verbatim>\<open>try\<close>, and both
  \<^verbatim>\<open>except\<close> clauses return \<^verbatim>\<open>(None, [])\<close>: for \<^verbatim>\<open>StopIteration\<close> of the primary lookup,
  and for any other exception, of the lookup or of a later statement; reading the venue
  reply is the later statement that can raise (a truthy body that is not an object, a venue
  name that is truthy and not a string). With an entry: the discovered versions, or \<open>[1]\<close>
  when none is found; the venue override when it is given, else the venue of the
  citation-graph data, else the journal reference of the entry; the revised dates when
  there are any.
\<close>

definition fetch_metadata_with_complete_versions ::
    "stats \<Rightarrow> string \<Rightarrow> meta_env \<Rightarrow> string option \<Rightarrow>
     (metadata option \<times> (nat \<times> string) list) \<times> stats" where
  "fetch_metadata_with_complete_versions st arxiv_id env venue_override =
     (case m_primary env of
        NoEntry \<Rightarrow> ((None, []), st)
      | LookupRaised \<Rightarrow> ((None, []), st)
      | Entry p \<Rightarrow>
          (let found = discover_all_versions (m_completion env) (m_probe env) (m_recheck env);
               all_versions = (if found = [] then [1] else found);
               st1 = st\<lparr>versions_found := versions_found st + length all_versions\<rparr>;
               versions_info = map (\<lambda>v. (v, arxiv_id @ ''v'' @ string_of_nat v)) all_versions;
               (venue, st2) =
                 (if truthy venue_override
                  then (Inr (case venue_override of Some v \<Rightarrow> v | None \<Rightarrow> []), st1)
                  else (case ss_get_cached st1 (m_venue_server env) of
                          (data, st', n) \<Rightarrow>
                            (case venue_of_data data of
                               Inl e \<Rightarrow> (Inl e, st')
                             | Inr v \<Rightarrow>
                                 if v = [] \<and> truthy (p_journal_ref p)
                                 then (Inr (py_strip (case p_journal_ref p of Some j \<Rightarrow> j | None \<Rightarrow> [])), st')
                                 else (Inr v, st'))));
               revised = m_scraped_dates env
           in case venue of
                Inl e \<Rightarrow> ((None, []), st2)
              | Inr venue_text \<Rightarrow>
                  ((Some \<lparr>paper_title = p_title p, authors = p_authors p,
                      submission_date = (case p_published p of Some d \<Rightarrow> d | None \<Rightarrow> []),
                      publication_venue = venue_text,
                      revised_dates = (if revised \<noteq> [] then Some revised else None)\<rparr>,
                    versions_info), st2)))"

text \<open>
  The data that the venue query of a metadata fetch gets, and whether reading it raises.
\<close>

definition venue_data_of :: "meta_env \<Rightarrow> ss_json option" where
  "venue_data_of env = fst (ss_get_cached init_stats (m_venue_server env))"

definition venue_raises :: "meta_env \<Rightarrow> bool" where
  "venue_raises env = isl (venue_of_data (venue_data_of env))"

section \<open>The orchestration of one paper\<close>

text \<open>
  What one run of \<^verbatim>\<open>scrape_single_paper\<close> does to the outside, in order: making a
  directory (with whether it succeeded), submitting the two concurrent fetches, the
  synchronous second call of the metadata fetch with its venue override, writing a JSON
  file through \<^verbatim>\<open>_save_json\<close> (with whether the file was written), and submitting the
  download of one revision.
\<close>

datatype event =
    EnsureDir string bool
  | SubmitRefs string
  | SubmitMeta string
  | RetryMeta string "string option"
  | SaveJson string bool
  | SubmitDownload string

text \<open>
  The environment of one run:
  \<^item> \<open>paper_dir_ok\<close>, \<open>tex_root_ok\<close>: \<^verbatim>\<open>ensure_dir\<close> of the paper directory and of its
    \<^verbatim>\<open>tex\<close> directory returns;
  \<^item> \<open>refs_timed_out\<close>, \<open>meta_timed_out\<close>: \<^verbatim>\<open>fut.result(timeout=30)\<close> raises for that
    future; the code then takes \<^verbatim>\<open>({}, None)\<close> and \<^verbatim>\<open>(None, [])\<close>;
  \<^item> \<open>refs_server\<close>, \<open>refs_scrape\<close>: the environment of the reference fetch;
  \<^item> \<open>first_meta\<close>, \<open>second_meta\<close>: the environments of the concurrent metadata fetch and
    of the synchronous second call (for the same arguments the \<^verbatim>\<open>lru_cache\<close> gives the
    second call the venue data of the first; the two environments are not tied here, which
    covers that);
  \<^item> \<open>save_meta_ok\<close>, \<open>save_refs_ok\<close>: the write inside \<^verbatim>\<open>_save_json\<close> goes through
    (the function catches and logs any exception);
  \<^item> \<open>completed_order\<close>: the order in which the submitted downloads complete, and
    \<open>version_envs\<close>: the environment of each download, by revision id.
  The counters that a worker updates are added when its future is joined.
\<close>

record paper_env =
  paper_dir_ok :: bool
  refs_timed_out :: bool
  refs_server :: "nat \<Rightarrow> attempt"
  refs_scrape :: "string \<Rightarrow> string"
  meta_timed_out :: bool
  first_meta :: meta_env
  second_meta :: meta_env
  save_meta_ok :: bool
  save_refs_ok :: bool
  tex_root_ok :: bool
  completed_order :: "(nat \<times> string) list \<Rightarrow> (nat \<times> string) list"
  version_envs :: "string \<Rightarrow> version_env"

text \<open>
  \<^verbatim>\<open>base_dot_id = re.sub(r"v\d+$", '', arxiv_id.replace('arXiv:', '').strip())\<close>, and the
  paths of the run.
\<close>

definition base_dot_id_of :: "string \<Rightarrow> string" where
  "base_dot_id_of arxiv_id = sub_version_suffix (py_strip (py_replace ''arXiv:'' [] arxiv_id))"

definition paper_dir_of :: "string \<Rightarrow> string \<Rightarrow> string" where
  "paper_dir_of output_dir arxiv_id = output_dir @ ''/'' @ format_yymm_id (base_dot_id_of arxiv_id)"

definition metadata_json :: "string \<Rightarrow> string \<Rightarrow> string" where
  "metadata_json output_dir arxiv_id = paper_dir_of output_dir arxiv_id @ ''/metadata.json''"

definition references_json :: "string \<Rightarrow> string \<Rightarrow> string" where
  "references_json output_dir arxiv_id = paper_dir_of output_dir arxiv_id @ ''/references.json''"

definition tex_root_of :: "string \<Rightarrow> string \<Rightarrow> string" where
  "tex_root_of output_dir arxiv_id = paper_dir_of output_dir arxiv_id @ ''/tex''"

definition tar_path_of :: "string \<Rightarrow> string \<Rightarrow> nat \<Rightarrow> string" where
  "tar_path_of output_dir arxiv_id version_num =
     tex_root_of output_dir arxiv_id @ ''/'' @ format_yymm_id (base_dot_id_of arxiv_id) @ ''v'' @
       string_of_nat version_num @ ''.tar.gz''"

text \<open>
  The join of the reference future:
  \<^verbatim>\<open>
  try: references, venue_from_refs = fut_refs.result(timeout=30)
  except Exception as e: references, venue_from_refs = {}, None
  \<close>
\<close>

definition join_refs ::
    "stats \<Rightarrow> paper_env \<Rightarrow> ((string \<rightharpoonup> reference_metadata) \<times> string option) \<times> stats" where
  "join_refs st env =
     (if refs_timed_out env then ((Map.empty, None), st)
      else case fetch_references_and_paper_venue st (refs_server env) (refs_scrape env) of
             (Inl e, st1) \<Rightarrow> ((Map.empty, None), st1)
           | (Inr r, st1) \<Rightarrow> (r, st1))"

text \<open>
  The join of the metadata future, submitted with no venue override:
  \<^verbatim>\<open>
  try: meta_result, versions_info = fut_meta.result(timeout=30)
  except Exception as e: meta_result, versions_info = None, []
  \<close>
\<close>

definition join_meta ::
    "stats \<Rightarrow> string \<Rightarrow> paper_env \<Rightarrow> (metadata option \<times> (nat \<times> string) list) \<times> stats" where
  "join_meta st base_dot_id env =
     (if meta_timed_out env then ((None, []), st)
      else fetch_metadata_with_complete_versions st base_dot_id (first_meta env) None)"

text \<open>
  \<^verbatim>\<open>scrape_single_paper\<close>, with the events of the run. After the second call of the
  metadata fetch, a \<^verbatim>\<open>meta_result\<close> that is still \<^verbatim>\<open>None\<close> makes the next statement raise
  \<^verbatim>\<open>TypeError\<close>: \<^verbatim>\<open>meta_result['publication_venue'] = venue_from_refs\<close> when a venue came
  with the references, and \<^verbatim>\<open>'publication_venue' not in meta_result\<close> otherwise. A
  \<^verbatim>\<open>meta_result\<close> that is not \<^verbatim>\<open>None\<close> has its keys, so \<^verbatim>\<open>if not meta_result\<close> is false for it.
\<close>

definition scrape_single_paper ::
    "stats \<Rightarrow> string \<Rightarrow> string \<Rightarrow> paper_env \<Rightarrow> (error + bool) \<times> stats \<times> event list" where
  "scrape_single_paper st output_dir arxiv_id env =
     (let base_dot_id = base_dot_id_of arxiv_id;
          t0 = [EnsureDir (paper_dir_of output_dir arxiv_id) (paper_dir_ok env)]
      in if \<not> paper_dir_ok env then (Inl OSError, st, t0)
         else
          (case join_refs st env of ((references, venue_from_refs), st1) \<Rightarrow>
           case join_meta st1 base_dot_id env of ((meta1, versions1), st2) \<Rightarrow>
           case (if meta1 = None
                 then (fetch_metadata_with_complete_versions st2 base_dot_id (second_meta env)
                         venue_from_refs,
                       [RetryMeta base_dot_id venue_from_refs])
                 else (((meta1, versions1), st2), [])) of
             (((meta_result, versions_info), st3), retry) \<Rightarrow>
           (let t2 = t0 @ [SubmitRefs base_dot_id, SubmitMeta base_dot_id] @ retry
            in case meta_result of
                 None \<Rightarrow> (Inl TypeError, st3, t2)
               | Some m \<Rightarrow>
                  (let m1 = (if truthy venue_from_refs
                             then m\<lparr>publication_venue :=
                                      (case venue_from_refs of Some v \<Rightarrow> v | None \<Rightarrow> [])\<rparr>
                             else m);
                       t3 = t2 @ [SaveJson (metadata_json output_dir arxiv_id) (save_meta_ok env),
                                  SaveJson (references_json output_dir arxiv_id) (save_refs_ok env),
                                  EnsureDir (tex_root_of output_dir arxiv_id) (tex_root_ok env)];
                       t4 = t3 @ map (\<lambda>(version_num, version_id). SubmitDownload version_id)
                                   versions_info
                   in case download_versions_concurrently st3 (tex_root_ok env)
                             (map (\<lambda>(version_num, version_id).
                                     (tar_path_of output_dir arxiv_id version_num,
                                      version_envs env version_id))
                                  (completed_order env versions_info)) of
                        (Inl e, st4) \<Rightarrow> (Inl e, st4, t3)
                      | (Inr successful_versions, st4) \<Rightarrow> (Inr True, st4, t4)))))"

text \<open>
  For a run: the venue that came with the references, the metadata the concurrent fetch
  gave at the join, and the metadata the synchronous second call gives.
\<close>

definition venue_from_refs_of :: "stats \<Rightarrow> paper_env \<Rightarrow> string option" where
  "venue_from_refs_of st env = snd (fst (join_refs st env))"

definition first_meta_result :: "stats \<Rightarrow> string \<Rightarrow> paper_env \<Rightarrow> metadata option" where
  "first_meta_result st arxiv_id env =
     fst (fst (join_meta (snd (join_refs st env)) (base_dot_id_of arxiv_id) env))"

definition second_meta_result :: "stats \<Rightarrow> string \<Rightarrow> paper_env \<Rightarrow> metadata option" where
  "second_meta_result st arxiv_id env =
     fst (fst (fetch_metadata_with_complete_versions
       (snd (join_meta (snd (join_refs st env)) (base_dot_id_of arxiv_id) env))
       (base_dot_id_of arxiv_id) (second_meta env) (venue_from_refs_of st env)))"

text \<open>The events and the result of a run.\<close>

definition events_of :: "stats \<Rightarrow> string \<Rightarrow> string \<Rightarrow> paper_env \<Rightarrow> event list" where
  "events_of st output_dir arxiv_id env = snd (snd (scrape_single_paper st output_dir arxiv_id env))"

definition result_of :: "stats \<Rightarrow> string \<Rightarrow> string \<Rightarrow> paper_env \<Rightarrow> error + bool" where
  "result_of st output_dir arxiv_id env = fst (scrape_single_paper st output_dir arxiv_id env)"

text \<open>\<^verbatim>\<open>_scrape_single_paper_safe\<close>: any exception becomes \<^verbatim>\<open>False\<close>.\<close>

definition scrape_single_paper_safe :: "stats \<Rightarrow> string \<Rightarrow> string \<Rightarrow> paper_env \<Rightarrow> bool" where
  "scrape_single_paper_safe st output_dir arxiv_id env =
     (case fst (scrape_single_paper st output_dir arxiv_id env) of
        Inl e \<Rightarrow> False
      | Inr ok \<Rightarrow> ok)"

text \<open>The directories made and the files written in a run, read off its events.\<close>

definition dirs_made :: "event list \<Rightarrow> string set" where
  "dirs_made t = {p. EnsureDir p True \<in> set t}"

definition files_written :: "event list \<Rightarrow> string set" where
  "files_written t = {p. SaveJson p True \<in> set t}"

definition is_fetch :: "event \<Rightarrow> bool" where
  "is_fetch e = (case e of SubmitRefs i \<Rightarrow> True | SubmitMeta i \<Rightarrow> True | RetryMeta i v \<Rightarrow> True
     | SubmitDownload i \<Rightarrow> True | _ \<Rightarrow> False)"

definition is_download :: "event \<Rightarrow> bool" where
  "is_download e = (case e of SubmitDownload i \<Rightarrow> True | _ \<Rightarrow> False)"


definition is_save :: "event \<Rightarrow> bool" where
  "is_save e = (case e of SaveJson p ok \<Rightarrow> True | _ \<Rightarrow> False)"

text \<open>
  The shape of the events of a run: with the venue that came with the references, whether
  the second call was made, whether the run ended without metadata, and the ids of the
  revisions submitted for download.
\<close>

definition run_events ::
    "string \<Rightarrow> string \<Rightarrow> paper_env \<Rightarrow> string option \<Rightarrow> bool \<Rightarrow> bool \<Rightarrow> string list \<Rightarrow> event list" where
  "run_events output_dir arxiv_id env venue retried failed ids =
     EnsureDir (paper_dir_of output_dir arxiv_id) (paper_dir_ok env) #
     (if paper_dir_ok env then
        [SubmitRefs (base_dot_id_of arxiv_id), SubmitMeta (base_dot_id_of arxiv_id)] @
        (if retried then [RetryMeta (base_dot_id_of arxiv_id) venue] else []) @
        (if failed then []
         else [SaveJson (metadata_json output_dir arxiv_id) (save_meta_ok env),
               SaveJson (references_json output_dir arxiv_id) (save_refs_ok env),
               EnsureDir (tex_root_of output_dir arxiv_id) (tex_root_ok env)] @
              (if tex_root_ok env then map SubmitDownload ids else []))
      else [])"

text \<open>Environments for the examples.\<close>

definition entry_meta :: meta_env where
  "entry_meta = \<lparr>m_primary = Entry \<lparr>p_title = ''A paper'', p_authors = [''A. Author''],
       p_published = Some ''2025-04-18'', p_journal_ref = None\<rparr>,
     m_completion = [2, 1, 3, 4, 5, 6, 7, 8], m_probe = probe_of [1, 2], m_recheck = False,
     m_venue_server = replies [Response 404 None], m_scraped_dates = []\<rparr>"

definition no_entry_meta :: meta_env where
  "no_entry_meta = entry_meta\<lparr>m_primary := NoEntry\<rparr>"

definition paper_with :: "meta_env \<Rightarrow> meta_env \<Rightarrow> bool \<Rightarrow> paper_env" where
  "paper_with m1 m2 save_ok = \<lparr>paper_dir_ok = True, refs_timed_out = False,
     refs_server = response_with [Some (ref_with_id ''2401.00001'' (Some ''T''))],
     refs_scrape = (\<lambda>i. []), meta_timed_out = False, first_meta = m1, second_meta = m2,
     save_meta_ok = save_ok, save_refs_ok = True, tex_root_ok = True, completed_order = rev,
     version_envs = (\<lambda>i. good_version)\<rparr>"




section \<open>The batch\<close>

text \<open>
  What \<^verbatim>\<open>fut.result()\<close> gives for one paper in \<^verbatim>\<open>scrape_papers\<close>: the value returned by
  \<^verbatim>\<open>_scrape_single_paper_safe\<close>, or an exception of the future.
\<close>

datatype paper_future = Returned bool | FutureRaised

text \<open>
  The loop over the completed futures:
  \<^verbatim>\<open>
  for fut in as_completed(future_to_id):
      self.stats['papers_attempted'] += 1
      try:
          ok = fut.result()
          if ok: self.stats['papers_successful'] += 1
          else: self.stats['papers_failed'] += 1
      except Exception as e:
          self.stats['papers_failed'] += 1
  \<close>
\<close>

fun papers_loop :: "stats \<Rightarrow> paper_future list \<Rightarrow> stats" where
  "papers_loop st [] = st"
| "papers_loop st (fut # futs) =
     (let st1 = st\<lparr>papers_attempted := papers_attempted st + 1\<rparr>
      in case fut of
           Returned ok \<Rightarrow>
             if ok then papers_loop (st1\<lparr>papers_successful := papers_successful st1 + 1\<rparr>) futs
             else papers_loop (st1\<lparr>papers_failed := papers_failed st1 + 1\<rparr>) futs
         | FutureRaised \<Rightarrow> papers_loop (st1\<lparr>papers_failed := papers_failed st1 + 1\<rparr>) futs)"

text \<open>
  \<^verbatim>\<open>scrape_papers\<close>: every id is submitted to \<^verbatim>\<open>_scrape_single_paper_safe\<close>; the list holds
  the papers, each with its environment, in the order in which they complete. Only the
  three paper counters, which the loop itself updates, are followed here.
\<close>

definition scrape_papers :: "stats \<Rightarrow> string \<Rightarrow> (string \<times> paper_env) list \<Rightarrow> stats" where
  "scrape_papers st output_dir papers =
     papers_loop st
       (map (\<lambda>(arxiv_id, env). Returned (scrape_single_paper_safe st output_dir arxiv_id env)) papers)"

text \<open>A paper whose run ends without metadata: the hard failure.\<close>

definition fails_hard :: "stats \<Rightarrow> string \<times> paper_env \<Rightarrow> bool" where
  "fails_hard st x =
     (paper_dir_ok (snd x) \<and> first_meta_result st (fst x) (snd x) = None \<and>
      second_meta_result st (fst x) (snd x) = None)"

section \<open>Properties of version discovery\<close>

lemma contiguous_loop_takeWhile:
  "contiguous_loop rs vs = takeWhile (\<lambda>v. v \<in> set rs) vs"
  by (induction vs) auto

lemma takeWhile_upt:
  "a \<le> b \<Longrightarrow> \<exists>c. a \<le> c \<and> c \<le> b \<and> takeWhile P [a ..< b] = [a ..< c] \<and>
     (\<forall>v. a \<le> v \<and> v < c \<longrightarrow> P v) \<and> (c < b \<longrightarrow> \<not> P c)"
proof (induction "b - a" arbitrary: a)
  case 0
  then have "a = b" by simp
  then show ?case by auto
next
  case (Suc n)
  then have lt: "a < b" by simp
  show ?case
  proof (cases "P a")
    case False
    with lt have "takeWhile P [a ..< b] = [a ..< a]"
      by (simp add: upt_conv_Cons)
    with False lt show ?thesis by (intro exI [of _ a]) auto
  next
    case True
    from Suc(2) lt have "n = b - Suc a" "Suc a \<le> b" by simp_all
    from Suc(1) [OF this] obtain c where c: "Suc a \<le> c" "c \<le> b"
      "takeWhile P [Suc a ..< b] = [Suc a ..< c]"
      "\<forall>v. Suc a \<le> v \<and> v < c \<longrightarrow> P v" "c < b \<longrightarrow> \<not> P c"
      by blast
    from True lt c(1,3) have "takeWhile P [a ..< b] = [a ..< c]"
      by (simp add: upt_conv_Cons)
    moreover have "\<forall>v. a \<le> v \<and> v < c \<longrightarrow> P v"
    proof (intro allI impI)
      fix v assume "a \<le> v \<and> v < c"
      then show "P v" using True c(4) by (cases "v = a") auto
    qed
    ultimately show ?thesis using c(1,2,5) by (intro exI [of _ c]) auto
  qed
qed

lemma set_results:
  "set completion = {1 .. max_v} \<Longrightarrow>
   set (sort (filter (\<lambda>v. probe v = Exists) completion)) = confirmed probe"
  by (auto simp: confirmed_def)

text \<open>
  C1. For the set \<open>S\<close> of revisions confirmed by the concurrent probes, whatever the order
  in which the probes complete: when revision 1 is in \<open>S\<close> the result is the ascending list
  \<open>[1, ..., k]\<close> with \<open>{1..k} \<subseteq> S\<close> and \<open>k + 1 \<notin> S\<close> (the maximal contiguous prefix);
  when revision 1 is not in \<open>S\<close> the prefix is empty and the result is \<open>[1]\<close> if the separate
  re-check of revision 1 succeeds and the empty list otherwise.
\<close>

theorem discover_all_versions_maximal_prefix:
  assumes "set completion = {1 .. max_v}"
  shows "(1 \<in> confirmed probe \<longrightarrow>
            (\<exists>k\<ge>1. discover_all_versions completion probe recheck = [1 ..< Suc k] \<and>
                    {1 .. k} \<subseteq> confirmed probe \<and> Suc k \<notin> confirmed probe)) \<and>
         (1 \<notin> confirmed probe \<longrightarrow>
            discover_all_versions completion probe recheck = (if recheck then [1] else []))"
proof -
  let ?S = "confirmed probe"
  let ?rs = "sort (filter (\<lambda>v. probe v = Exists) completion)"
  have S: "set ?rs = ?S" using assms by (rule set_results)
  have fin: "finite ?S" using S [symmetric] by simp
  show ?thesis
  proof (cases "1 \<in> ?S")
    case True
    have ne: "?rs \<noteq> []"
    proof
      assume "?rs = []"
      then have "set ?rs = {}" by (simp only: set_empty)
      with S True show False by simp
    qed
    have "1 \<le> Suc (Max ?S)" by simp
    from takeWhile_upt [OF this, of "\<lambda>v. v \<in> ?S"] obtain c where c:
      "1 \<le> c" "c \<le> Suc (Max ?S)" "takeWhile (\<lambda>v. v \<in> ?S) [1 ..< Suc (Max ?S)] = [1 ..< c]"
      "\<forall>v. 1 \<le> v \<and> v < c \<longrightarrow> v \<in> ?S" "c < Suc (Max ?S) \<longrightarrow> c \<notin> ?S"
      by blast
    have c2: "2 \<le> c"
    proof (rule ccontr)
      assume "\<not> 2 \<le> c"
      with c(1) have c1: "c = 1" by simp
      have "1 \<le> Max ?S" using True fin by (rule Max_ge [rotated])
      with c1 c(5) True show False by simp
    qed
    obtain k where k: "c = Suc k" "1 \<le> k" using c2 by (cases c) auto
    have notin: "Suc k \<notin> ?S"
    proof (cases "c < Suc (Max ?S)")
      case True
      with c(5) k show ?thesis by simp
    next
      case False
      with c(2) have "c = Suc (Max ?S)" by simp
      then have "Max ?S < Suc k" using k by simp
      moreover have "Suc k \<in> ?S \<Longrightarrow> Suc k \<le> Max ?S" using fin by (rule Max_ge)
      ultimately show ?thesis by auto
    qed
    have sub: "{1 .. k} \<subseteq> ?S" using c(4) k by auto
    have tw: "contiguous_loop ?rs [1 ..< Suc (Max (set ?rs))] = [1 ..< Suc k]"
      unfolding contiguous_loop_takeWhile S using c(3) k by (simp only:)
    have "[1 ..< Suc k] \<noteq> []" using k by simp
    with tw ne have "discover_all_versions completion probe recheck = [1 ..< Suc k]"
      unfolding discover_all_versions_def Let_def by (simp only: if_True if_False simp_thms)
    with sub notin k True show ?thesis by blast
  next
    case False
    have "discover_all_versions completion probe recheck = (if recheck then [1] else [])"
    proof (cases "?rs = []")
      case True
      then show ?thesis by (simp add: discover_all_versions_def Let_def)
    next
      case ne: False
      have "?S \<noteq> {}" using ne S by (metis set_empty)
      with fin have "Max ?S \<in> ?S" by (rule Max_in)
      then have "1 \<le> Max ?S" by (simp add: confirmed_def)
      then have "[1 ..< Suc (Max ?S)] = 1 # [Suc 1 ..< Suc (Max ?S)]"
        by (intro upt_conv_Cons) simp
      then have "contiguous_loop ?rs [1 ..< Suc (Max (set ?rs))] = []"
        unfolding S using False by (simp only: S contiguous_loop.simps if_False)
      then show ?thesis using ne
        unfolding discover_all_versions_def Let_def by (simp only: if_True if_False simp_thms)
    qed
    with False show ?thesis by simp
  qed
qed

lemma discover_examples:
  "discover_all_versions [3, 1, 4, 2, 8, 6, 5, 7] (probe_of [1, 2, 4]) False = [1, 2]"
  "discover_all_versions [3, 1, 4, 2, 8, 6, 5, 7] (probe_of [1, 3]) False = [1]"
  "discover_all_versions [3, 1, 4, 2, 8, 6, 5, 7] (probe_of [2, 3]) False = []"
  "discover_all_versions [3, 1, 4, 2, 8, 6, 5, 7] (probe_of [2, 3]) True = [1]"
  "discover_all_versions [3, 1, 4, 2, 8, 6, 5, 7] (probe_of [1, 2, 3]) False = [1, 2, 3]"
  by code_simp+

theorem discover_all_versions_maximal_prefix_witness:
  "set [3, 1, 4, 2, 8, 6, 5, 7] = {1 .. max_v} \<and> 1 \<in> confirmed (probe_of [1, 2, 4]) \<and>
   (\<exists>k\<ge>1. discover_all_versions [3, 1, 4, 2, 8, 6, 5, 7] (probe_of [1, 2, 4]) False = [1 ..< Suc k] \<and>
           {1 .. k} \<subseteq> confirmed (probe_of [1, 2, 4]) \<and> Suc k \<notin> confirmed (probe_of [1, 2, 4])) \<and>
   1 \<notin> confirmed (probe_of [2, 3]) \<and>
   discover_all_versions [3, 1, 4, 2, 8, 6, 5, 7] (probe_of [2, 3]) True = [1]"
proof -
  have h: "set [3, 1, 4, 2, 8, 6, 5, 7] = {1 .. max_v}"
    by (auto simp: max_v_def MAX_VERSION_TO_CHECK_def)
  have m: "1 \<in> confirmed (probe_of [1, 2, 4])"
    by (simp add: confirmed_def probe_of_def max_v_def MAX_VERSION_TO_CHECK_def)
  have n: "1 \<notin> confirmed (probe_of [2, 3])"
    by (simp add: confirmed_def probe_of_def)
  from discover_all_versions_maximal_prefix [OF h, of "probe_of [1, 2, 4]" False] m
  have a: "\<exists>k\<ge>1. discover_all_versions [3, 1, 4, 2, 8, 6, 5, 7] (probe_of [1, 2, 4]) False = [1 ..< Suc k] \<and>
           {1 .. k} \<subseteq> confirmed (probe_of [1, 2, 4]) \<and> Suc k \<notin> confirmed (probe_of [1, 2, 4])"
    by blast
  from discover_all_versions_maximal_prefix [OF h, of "probe_of [2, 3]" True] n
  have b: "discover_all_versions [3, 1, 4, 2, 8, 6, 5, 7] (probe_of [2, 3]) True = [1]"
    by (simp only: if_True simp_thms)
  from h m a n b show ?thesis by (intro conjI)
qed

section \<open>Properties of id normalization\<close>

lemma format_examples:
  "format_yymm_id ''2504.13946v2'' = ''2504-13946''"
  "format_yymm_id ''arXiv:2504.13946'' = ''2504-13946''"
  "format_yymm_id ''2504-13946'' = ''2504-13946''"
  "format_yymm_id ''cs.2401.00001'' = ''cs-2401.00001''"
  "format_yymm_id ''cs-2401.00001'' = ''cs-2401-00001''"
  by code_simp+

lemma valid_examples:
  "is_valid_arxiv_id ''2401.00001''"
  "\<not> is_valid_arxiv_id ''abc.00001''"
  "\<not> is_valid_arxiv_id ''2413.00001''"
  "is_valid_arxiv_id ''2401.0001v3''"
  "is_valid_arxiv_id ''cs.2401.00001''"
  "is_valid_arxiv_id (''2401.00001'' @ [CHR 0x0A])"
  by code_simp+

lemma digits_exclude:
  "list_all is_digit s \<Longrightarrow> c \<notin> set ''0123456789'' \<Longrightarrow> c \<notin> set s"
  by (auto simp: list_all_iff is_digit_def)

lemma digit_facts:
  "is_digit c \<Longrightarrow> \<not> is_space c"
  "is_digit c \<Longrightarrow> c \<noteq> CHR ''a''"
  "is_digit c \<Longrightarrow> c \<noteq> CHR ''v''"
  "is_digit c \<Longrightarrow> c \<noteq> CHR ''.''"
  "is_digit c \<Longrightarrow> c \<noteq> CHR ''-''"
  "is_digit c \<Longrightarrow> c \<noteq> CHR 0x0A"
  by (auto simp: is_digit_def is_space_def)

lemma py_replace_absent:
  "old \<noteq> [] \<Longrightarrow> hd old \<notin> set s \<Longrightarrow> py_replace old new s = s"
proof (induction s)
  case Nil
  then show ?case by simp
next
  case (Cons c cs)
  from Cons.prems have "take (length old) (c # cs) \<noteq> old"
    by (cases old) auto
  with Cons show ?case by simp
qed

lemma dropWhile_none: "\<forall>c\<in>set s. \<not> P c \<Longrightarrow> dropWhile P s = s"
  by (cases s) auto

lemma py_strip_id: "\<forall>c\<in>set s. \<not> is_space c \<Longrightarrow> py_strip s = s"
  by (simp add: py_strip_def dropWhile_none)

lemma sub_version_suffix_strips:
  assumes "k \<noteq> []" "list_all is_digit k"
  shows "sub_version_suffix (x @ CHR ''v'' # k) = x"
proof -
  let ?s = "x @ CHR ''v'' # k"
  have dig: "\<forall>c\<in>set (rev k). is_digit c" using assms(2) by (simp add: list_all_iff)
  have "is_digit (last k)" using assms by (simp add: list_all_iff)
  then have "last ?s \<noteq> CHR 0x0A" using assms(1) by (simp add: digit_facts)
  moreover have "rev ?s = rev k @ CHR ''v'' # rev x" by simp
  moreover have nd: "\<not> is_digit CHR ''v''" by (simp add: is_digit_def)
  moreover have "takeWhile is_digit (rev k @ CHR ''v'' # rev x) =
      rev k @ takeWhile is_digit (CHR ''v'' # rev x)"
    using dig by (intro takeWhile_append2) auto
  moreover have "dropWhile is_digit (rev k @ CHR ''v'' # rev x) =
      dropWhile is_digit (CHR ''v'' # rev x)"
    using dig by (intro dropWhile_append2) auto
  ultimately show ?thesis using assms(1)
    by (simp add: sub_version_suffix_def Let_def)
qed

lemma sub_version_suffix_no_v:
  assumes "CHR ''v'' \<notin> set s"
  shows "sub_version_suffix s = s"
proof -
  have "front \<noteq> [] \<Longrightarrow> hd front \<noteq> CHR ''v''"
    if "front = dropWhile is_digit (rev body)" "set body \<subseteq> set s" for front body
  proof -
    assume "front \<noteq> []"
    then have "hd front \<in> set front" by simp
    also have "set front \<subseteq> set (rev body)" unfolding that(1) by (rule set_dropWhileD [THEN subsetI])
    finally have "hd front \<in> set s" using that(2) by auto
    with assms show ?thesis by auto
  qed
  note h = this
  have a: "set (butlast s) \<subseteq> set s" by (auto dest: in_set_butlastD)
  show ?thesis
    using h [OF refl a] h [OF refl subset_refl]
    by (auto simp: sub_version_suffix_def Let_def)
qed

lemma split_first_at:
  assumes "sep \<notin> set a"
  shows "split_first sep (a @ sep # b) = (a, b)"
proof -
  have "\<forall>x\<in>set a. x \<noteq> sep" using assms by auto
  then show ?thesis by (simp add: split_first_def)
qed

lemma format_yymm_id_fixed:
  assumes "CHR ''a'' \<notin> set s" "\<forall>c\<in>set s. \<not> is_space c" "CHR ''v'' \<notin> set s" "CHR ''.'' \<notin> set s"
  shows "format_yymm_id s = s"
  using assms
  by (simp add: format_yymm_id_def Let_def py_replace_absent py_strip_id sub_version_suffix_no_v)

lemma format_yymm_id_dotted:
  assumes a: "list_all is_digit a" and b: "list_all is_digit b"
    and k: "suffix = [] \<or> (\<exists>k. k \<noteq> [] \<and> list_all is_digit k \<and> suffix = CHR ''v'' # k)"
  shows "format_yymm_id (a @ ''.'' @ b @ suffix) = a @ ''-'' @ b"
proof -
  define base where "base = a @ CHR ''.'' # b"
  define s where "s = base @ suffix"
  have sfx: "c \<in> set suffix \<Longrightarrow> c = CHR ''v'' \<or> is_digit c" for c
    using k by (auto simp: list_all_iff)
  have bs: "c \<in> set base \<Longrightarrow> c = CHR ''.'' \<or> is_digit c" for c
    using a b by (auto simp: base_def list_all_iff)
  have chars: "c \<in> set s \<Longrightarrow> c = CHR ''.'' \<or> c = CHR ''v'' \<or> is_digit c" for c
    using sfx [of c] bs [of c] by (auto simp: s_def)
  have "CHR ''a'' \<notin> set s"
    using chars [of "CHR ''a''"] digit_facts(2) [of "CHR ''a''"] by auto
  then have r: "py_replace ''arXiv:'' [] s = s" by (intro py_replace_absent) simp_all
  have "\<not> is_space CHR ''.''" "\<not> is_space CHR ''v''" by (simp_all add: is_space_def)
  then have "\<forall>c\<in>set s. \<not> is_space c"
    using chars digit_facts(1) by blast
  then have st: "py_strip s = s" by (rule py_strip_id)
  have "CHR ''v'' \<notin> set base"
    using bs [of "CHR ''v''"] digit_facts(3) [of "CHR ''v''"] by auto
  then have sv0: "sub_version_suffix base = base" by (rule sub_version_suffix_no_v)
  have sv: "sub_version_suffix s = base"
  proof (cases "suffix = []")
    case True
    with sv0 show ?thesis by (simp add: s_def)
  next
    case False
    with k obtain k' where k': "k' \<noteq> []" "list_all is_digit k'" "suffix = CHR ''v'' # k'"
      by blast
    from sub_version_suffix_strips [OF k'(1,2), of base] k'(3) show ?thesis
      by (simp only: s_def)
  qed
  have "CHR ''.'' \<notin> set a"
    using digits_exclude [OF a, of "CHR ''.''"] by simp
  then have sp: "split_first CHR ''.'' base = (a, b)"
    unfolding base_def by (rule split_first_at)
  have dot: "CHR ''.'' \<in> set base" by (simp add: base_def)
  have "format_yymm_id s = a @ ''-'' @ b"
    unfolding format_yymm_id_def Let_def r st sv using sp dot by simp
  moreover have "a @ ''.'' @ b @ suffix = s" by (simp add: s_def base_def)
  ultimately show ?thesis by (simp only:)
qed

text \<open>
  C9, as stated, fails: an id with a subject-class prefix, which \<^verbatim>\<open>_is_valid_arxiv_id\<close>
  accepts, has two dots; \<^verbatim>\<open>split(".", 1)\<close> rewrites only the first one, and a second
  application rewrites the other.
\<close>

theorem format_yymm_id_not_idempotent:
  "is_valid_arxiv_id ''cs.2401.00001'' \<and>
   format_yymm_id ''cs.2401.00001'' = ''cs-2401.00001'' \<and>
   format_yymm_id (format_yymm_id ''cs.2401.00001'') = ''cs-2401-00001'' \<and>
   format_yymm_id (format_yymm_id ''cs.2401.00001'') \<noteq> format_yymm_id ''cs.2401.00001''"
  by code_simp

text \<open>
  C9, amended. For every id of the form digits, dot, digits (as \<open>YYMM.NNNNN\<close>), with or
  without a trailing revision suffix \<open>vK\<close>, \<^verbatim>\<open>format_yymm_id\<close> gives the dash form of the
  base id, and applying it a second time changes nothing.
\<close>

theorem format_yymm_id_idempotent_on_dotted_ids:
  assumes "list_all is_digit a" and "list_all is_digit b"
    and "suffix = [] \<or> (\<exists>k. k \<noteq> [] \<and> list_all is_digit k \<and> suffix = CHR ''v'' # k)"
  shows "format_yymm_id (a @ ''.'' @ b @ suffix) = a @ ''-'' @ b \<and>
         format_yymm_id (format_yymm_id (a @ ''.'' @ b @ suffix)) =
           format_yymm_id (a @ ''.'' @ b @ suffix)"
proof -
  have first: "format_yymm_id (a @ ''.'' @ b @ suffix) = a @ ''-'' @ b"
    using assms by (rule format_yymm_id_dotted)
  have "format_yymm_id (a @ ''-'' @ b) = a @ ''-'' @ b"
  proof (rule format_yymm_id_fixed)
    show "CHR ''a'' \<notin> set (a @ ''-'' @ b)"
      using digits_exclude [OF assms(1), of "CHR ''a''"] digits_exclude [OF assms(2), of "CHR ''a''"]
      by simp
    show "CHR ''v'' \<notin> set (a @ ''-'' @ b)"
      using digits_exclude [OF assms(1), of "CHR ''v''"] digits_exclude [OF assms(2), of "CHR ''v''"]
      by simp
    show "CHR ''.'' \<notin> set (a @ ''-'' @ b)"
      using digits_exclude [OF assms(1), of "CHR ''.''"] digits_exclude [OF assms(2), of "CHR ''.''"]
      by simp
    have "\<not> is_space CHR ''-''" by (simp add: is_space_def)
    then show "\<forall>c\<in>set (a @ ''-'' @ b). \<not> is_space c"
      using assms(1,2) by (auto simp: list_all_iff digit_facts(1))
  qed
  with first show ?thesis by simp
qed

theorem format_yymm_id_idempotent_on_dotted_ids_witness:
  "list_all is_digit ''2504'' \<and> list_all is_digit ''13946'' \<and>
   (''v2'' = [] \<or> (\<exists>k. k \<noteq> [] \<and> list_all is_digit k \<and> ''v2'' = CHR ''v'' # k)) \<and>
   format_yymm_id ''2504.13946v2'' = ''2504-13946'' \<and>
   format_yymm_id (format_yymm_id ''2504.13946v2'') = format_yymm_id ''2504.13946v2''"
proof -
  have a: "list_all is_digit ''2504''" and b: "list_all is_digit ''13946''"
    by (simp_all add: is_digit_def)
  have k: "''v2'' = [] \<or> (\<exists>k. k \<noteq> [] \<and> list_all is_digit k \<and> ''v2'' = CHR ''v'' # k)"
    by (simp add: is_digit_def)
  have r: "format_yymm_id ''2504.13946v2'' = ''2504-13946'' \<and>
     format_yymm_id (format_yymm_id ''2504.13946v2'') = format_yymm_id ''2504.13946v2''"
    using format_yymm_id_idempotent_on_dotted_ids [OF a b k]
    unfolding append_Cons append_Nil .
  show ?thesis by (intro conjI a b k r [THEN conjunct1] r [THEN conjunct2])
qed

section \<open>Properties of the citation-graph call\<close>

lemma ss_examples:
  "ss_get_cached init_stats (replies [Response 404 None]) = (Some JEmpty, init_stats\<lparr>ss_requests_made := 1\<rparr>, 1)"
  "ss_get_cached init_stats (replies [Response 429 None, Response 429 None, Response 429 None])
     = (None, init_stats\<lparr>ss_requests_made := 1, ss_errors := 1\<rparr>, 3)"
  by (simp_all add: ss_get_cached_def retry_total_def replies_def status_forcelist_def init_stats_def numeral_2_eq_2)

lemma session_get_forced:
  "server i = Response st body \<Longrightarrow> st \<in> set status_forcelist \<Longrightarrow>
   session_get (Suc n) server i = session_get n server (Suc i)"
  "server i = Response st body \<Longrightarrow> st \<in> set status_forcelist \<Longrightarrow>
   session_get 0 server i = (GetRaised, Suc i)"
  by simp_all

lemma session_get_passed:
  "server i = Response st body \<Longrightarrow> st \<notin> set status_forcelist \<Longrightarrow>
   session_get left server i = (Got st body, Suc i)"
  by simp

lemma session_get_sent: "i < snd (session_get left server i)"
proof (induction left arbitrary: i)
  case 0
  show ?case by (simp split: attempt.splits)
next
  case (Suc n)
  have "Suc i < snd (session_get n server (Suc i))" by (rule Suc.IH)
  then have "i < snd (session_get n server (Suc i))" by simp
  then show ?case by (simp split: attempt.splits)
qed

lemma session_get_never_forced:
  "session_get left server i = (Got st body, n) \<Longrightarrow> st \<notin> set status_forcelist"
proof (induction left arbitrary: i)
  case 0
  then show ?case by (auto split: attempt.splits if_splits)
next
  case (Suc k)
  then show ?case by (auto split: attempt.splits if_splits)
qed

declare session_get.simps [simp del]

text \<open>
  The branch \<^verbatim>\<open>elif resp.status_code == 429\<close> is never taken: the adapter never hands a
  response with status 429 to the caller, so no call changes \<open>ss_rate_limit_hits\<close>.
\<close>

lemma ss_rate_limit_hits_unchanged:
  "ss_rate_limit_hits (fst (snd (ss_get_cached st server))) = ss_rate_limit_hits st"
proof -
  obtain r n where g: "session_get retry_total server 0 = (r, n)" by (cases "session_get retry_total server 0")
  show ?thesis
  proof (cases r)
    case (Got code body)
    with g have "session_get retry_total server 0 = (Got code body, n)" by simp
    then have "code \<notin> set status_forcelist" by (rule session_get_never_forced)
    then have "code \<noteq> 429" by (auto simp: status_forcelist_def)
    with g Got show ?thesis by (simp add: ss_get_cached_def Let_def split: option.splits)
  next
    case GetRaised
    with g show ?thesis by (simp add: ss_get_cached_def Let_def)
  qed
qed

text \<open>
  C8, as stated, fails: the first request of this call gets status 429; the adapter sends
  the request again, the second response has status 200, and the call returns its data.
  Two requests were sent and \<open>ss_rate_limit_hits\<close> is unchanged.
\<close>

theorem ss_get_cached_429_is_retried:
  "ss_get_cached init_stats (replies [Response 429 None, Response 200 (Some (JData venue_only))])
     = (Some (JData venue_only), init_stats\<lparr>ss_requests_made := 1\<rparr>, 2) \<and>
   ss_rate_limit_hits (init_stats\<lparr>ss_requests_made := 1\<rparr>) = ss_rate_limit_hits init_stats"
  by (simp add: ss_get_cached_def retry_total_def replies_def status_forcelist_def init_stats_def
      numeral_2_eq_2 session_get.simps)

lemma session_get_bound: "snd (session_get left server i) \<le> i + left + 1"
proof (induction left arbitrary: i)
  case 0
  show ?case by (simp add: session_get.simps split: attempt.splits)
next
  case (Suc n)
  have "snd (session_get n server (Suc i)) \<le> Suc i + n + 1" by (rule Suc.IH)
  then show ?case by (simp add: session_get.simps [of "Suc n"] split: attempt.splits)
qed

lemma session_get_skip:
  assumes "\<forall>i<k. \<exists>b. server (i0 + i) = Response 429 b"
  shows "session_get (k + left) server i0 = session_get left server (i0 + k)"
  using assms
proof (induction k arbitrary: i0)
  case 0
  show ?case by simp
next
  case (Suc k)
  have f: "429 \<in> set status_forcelist" by (simp add: status_forcelist_def)
  from Suc.prems have "\<exists>b. server (i0 + 0) = Response 429 b" by blast
  then obtain b where b: "server i0 = Response 429 b" by auto
  have "session_get (Suc k + left) server i0 = session_get (k + left) server (Suc i0)"
    using session_get_forced(1) [of server i0 429 b "k + left"] b f by simp
  also have "\<dots> = session_get left server (Suc i0 + k)"
  proof (rule Suc.IH)
    show "\<forall>i<k. \<exists>b. server (Suc i0 + i) = Response 429 b"
    proof (intro allI impI)
      fix i assume "i < k"
      then have "Suc i < Suc k" by simp
      with Suc.prems have "\<exists>b. server (i0 + Suc i) = Response 429 b" by blast
      then show "\<exists>b. server (Suc i0 + i) = Response 429 b" by simp
    qed
  qed
  finally show ?case by simp
qed

lemma requests_sent:
  "snd (snd (ss_get_cached st server)) = snd (session_get retry_total server 0)"
proof -
  obtain r n where g: "session_get retry_total server 0 = (r, n)"
    by (cases "session_get retry_total server 0")
  then show ?thesis
    by (cases r) (simp_all add: ss_get_cached_def Let_def split: option.splits)
qed

lemma after_429s:
  assumes k: "k \<le> 2" and a: "\<forall>i<k. \<exists>b. server i = Response 429 b"
  shows "session_get retry_total server 0 = session_get (2 - k) server k"
proof -
  from a have "\<forall>i<k. \<exists>b. server (0 + i) = Response 429 b" by simp
  from session_get_skip [OF this, of "2 - k"] k show ?thesis by (simp add: retry_total_def)
qed

lemma resent_after_429:
  assumes "k \<le> 2" and "\<forall>i<k. \<exists>b. server i = Response 429 b"
  shows "Suc k \<le> snd (snd (ss_get_cached st server))"
  using session_get_sent [of k "2 - k" server]
  unfolding requests_sent after_429s [OF assms] by simp

lemma data_after_429:
  assumes k: "k \<le> 2" and a: "\<forall>i<k. \<exists>b. server i = Response 429 b"
    and d: "server k = Response 200 (Some j)"
  shows "ss_get_cached st server = (Some j, st\<lparr>ss_requests_made := ss_requests_made st + 1\<rparr>, Suc k)"
proof -
  have "200 \<notin> set status_forcelist" by (simp add: status_forcelist_def)
  with d have "session_get (2 - k) server k = (Got 200 (Some j), Suc k)" by (rule session_get_passed)
  then have "session_get retry_total server 0 = (Got 200 (Some j), Suc k)"
    unfolding after_429s [OF k a] .
  then show ?thesis by (simp add: ss_get_cached_def Let_def)
qed

lemma three_429_no_data:
  assumes a: "\<forall>i<3. \<exists>b. server i = Response 429 b"
  shows "fst (ss_get_cached st server) = None \<and> snd (snd (ss_get_cached st server)) = 3"
proof -
  have f: "429 \<in> set status_forcelist" by (simp add: status_forcelist_def)
  from a have "\<forall>i<2. \<exists>b. server i = Response 429 b" by simp
  then have "session_get retry_total server 0 = session_get (2 - 2) server 2"
    by (intro after_429s) simp_all
  moreover from a obtain b where "server 2 = Response 429 b" by force
  then have "session_get 0 server 2 = (GetRaised, Suc 2)" using f by (rule session_get_forced(2))
  ultimately have g: "session_get retry_total server 0 = (GetRaised, 3)" by simp
  then show ?thesis by (simp add: ss_get_cached_def Let_def)
qed

lemma at_most_three_requests: "snd (snd (ss_get_cached st server)) \<le> 3"
  using session_get_bound [of retry_total server 0]
  unfolding requests_sent by (simp add: retry_total_def)

lemma first_404_empty:
  assumes a: "server 0 = Response 404 b"
  shows "ss_get_cached st server =
    (Some JEmpty, st\<lparr>ss_requests_made := ss_requests_made st + 1\<rparr>, 1)"
proof -
  have "404 \<notin> set status_forcelist" by (simp add: status_forcelist_def)
  with a have "session_get retry_total server 0 = (Got 404 b, Suc 0)" by (rule session_get_passed)
  then show ?thesis by (simp add: ss_get_cached_def Let_def)
qed

text \<open>
  C8, amended. For every citation-graph call that sends requests: a request answered with
  status 429 is sent again within the call by the retry adapter of the session, at most two
  times, so the call sends at most three requests; when a request after the 429 answers is
  answered with status 200, the call yields the data of that response; when all three
  requests are answered with status 429, the call yields no data (\<^verbatim>\<open>None\<close>). A response with
  status 404 to the first request ends the call after that one request with the empty
  result \<^verbatim>\<open>{}\<close>, and no error is counted.
\<close>

theorem ss_get_cached_429_and_404:
  "snd (snd (ss_get_cached st server)) \<le> 3 \<and>
   (k \<le> 2 \<and> (\<forall>i<k. \<exists>b. server i = Response 429 b) \<longrightarrow>
      Suc k \<le> snd (snd (ss_get_cached st server))) \<and>
   (k \<le> 2 \<and> (\<forall>i<k. \<exists>b. server i = Response 429 b) \<and> server k = Response 200 (Some j) \<longrightarrow>
      ss_get_cached st server =
        (Some j, st\<lparr>ss_requests_made := ss_requests_made st + 1\<rparr>, Suc k)) \<and>
   ((\<forall>i<3. \<exists>b. server i = Response 429 b) \<longrightarrow>
      fst (ss_get_cached st server) = None \<and> snd (snd (ss_get_cached st server)) = 3) \<and>
   (server 0 = Response 404 b \<longrightarrow>
      ss_get_cached st server =
        (Some JEmpty, st\<lparr>ss_requests_made := ss_requests_made st + 1\<rparr>, 1))"
  using at_most_three_requests [of st server] resent_after_429 [of k server st]
    data_after_429 [of k server j st] three_429_no_data [of server st]
    first_404_empty [of server b st]
  by blast

theorem ss_get_cached_429_and_404_witness:
  "(1::nat) \<le> 2 \<and>
   replies [Response 429 None, Response 200 (Some (JData venue_only))] 0 = Response 429 None \<and>
   replies [Response 429 None, Response 200 (Some (JData venue_only))] 1
     = Response 200 (Some (JData venue_only)) \<and>
   ss_get_cached init_stats (replies [Response 429 None, Response 200 (Some (JData venue_only))])
     = (Some (JData venue_only), init_stats\<lparr>ss_requests_made := ss_requests_made init_stats + 1\<rparr>, Suc 1) \<and>
   replies [Response 429 None, Response 429 None, Response 429 None] 0 = Response 429 None \<and>
   replies [Response 429 None, Response 429 None, Response 429 None] 1 = Response 429 None \<and>
   replies [Response 429 None, Response 429 None, Response 429 None] 2 = Response 429 None \<and>
   fst (ss_get_cached init_stats (replies [Response 429 None, Response 429 None, Response 429 None])) = None \<and>
   snd (snd (ss_get_cached init_stats (replies [Response 429 None, Response 429 None, Response 429 None]))) = 3 \<and>
   replies [Response 404 None] 0 = Response 404 None \<and>
   ss_get_cached init_stats (replies [Response 404 None])
     = (Some JEmpty, init_stats\<lparr>ss_requests_made := ss_requests_made init_stats + 1\<rparr>, 1)"
proof -
  let ?r = "replies [Response 429 None, Response 200 (Some (JData venue_only))]"
  let ?s = "replies [Response 429 None, Response 429 None, Response 429 None]"
  have k: "(1::nat) \<le> 2" by simp
  have q0: "?r 0 = Response 429 None" by (simp add: replies_def)
  have r0: "\<forall>i<1. \<exists>b. ?r i = Response 429 b" by (simp add: replies_def)
  have s0: "?s 0 = Response 429 None" and s1: "?s 1 = Response 429 None"
    and s2: "?s 2 = Response 429 None" by (simp_all add: replies_def)
  have r1: "?r 1 = Response 200 (Some (JData venue_only))" by (simp add: replies_def)
  have s3: "\<forall>i<3. \<exists>b. ?s i = Response 429 b"
  proof (intro allI impI)
    fix i :: nat assume "i < 3"
    then have "i = 0 \<or> i = 1 \<or> i = 2" by arith
    then show "\<exists>b. ?s i = Response 429 b" by (auto simp: replies_def)
  qed
  have h4: "replies [Response 404 None] 0 = Response 404 None" by (simp add: replies_def)
  note t = ss_get_cached_429_and_404
    [where server = ?r and st = init_stats and k = 1 and j = "JData venue_only"]
  note u = ss_get_cached_429_and_404 [where server = ?s and st = init_stats]
  note v = ss_get_cached_429_and_404
    [where server = "replies [Response 404 None]" and st = init_stats and b = None]
  from t k r0 r1 have c1: "ss_get_cached init_stats ?r
     = (Some (JData venue_only), init_stats\<lparr>ss_requests_made := ss_requests_made init_stats + 1\<rparr>, Suc 1)"
    by blast
  from u s3 have c2: "fst (ss_get_cached init_stats ?s) = None \<and>
      snd (snd (ss_get_cached init_stats ?s)) = 3" by blast
  from v h4 have c3: "ss_get_cached init_stats (replies [Response 404 None])
     = (Some JEmpty, init_stats\<lparr>ss_requests_made := ss_requests_made init_stats + 1\<rparr>, 1)" by blast
  show ?thesis
    by (intro conjI k q0 r1 c1 s0 s1 s2 c2 [THEN conjunct1] c2 [THEN conjunct2] h4 c3)
qed

section \<open>Properties of reference extraction\<close>

lemma extract_examples:
  "extract_arxiv_id_comprehensive (ref_with_id ''2401.00001'' (Some ''T'')) = Some ''2401.00001''"
  "extract_arxiv_id_comprehensive (ref_with_url ''https://arxiv.org/abs/2401.00002'' (Some ''T''))
     = Some ''2401.00002''"
  "extract_arxiv_id_comprehensive (ref_with_url ''arxiv.org/abs/x arxiv.org/ABS/2401.1V3x'' None)
     = Some ''2401.1V3''"
  "extract_arxiv_id_comprehensive (ref_with_url ''arxiv.org/pdf/1.2 arxiv.org/abs/3.4v'' None)
     = Some ''3.4v''"
  "extract_arxiv_id_comprehensive (ref_with_url ''ARXIV.ORG/abs/1'' None) = None"
  by code_simp+

lemma string_of_nat_examples: "string_of_nat 2024 = ''2024''" "string_of_nat 7 = ''7''"
  by code_simp+

lemma build_reference_metadata_Some_iff:
  "(build_reference_metadata_accurate scrape ref i \<noteq> None) = truthy (ref_title ref)"
  by (simp add: build_reference_metadata_accurate_def Let_def truthy_def split: option.splits)

lemma is_valid_nonempty: "is_valid_arxiv_id i \<Longrightarrow> i \<noteq> []"
  by (auto simp: is_valid_arxiv_id_def)

lemma references_loop_step:
  "references_loop scrape (Some ref # refs) m c =
     (case extract_arxiv_id_comprehensive ref of
        None \<Rightarrow> references_loop scrape refs m c
      | Some i \<Rightarrow>
          if contributes ref i
          then references_loop scrape refs
                 (m(format_yymm_id i \<mapsto> the (build_reference_metadata_accurate scrape ref i))) (Suc c)
          else if is_valid_arxiv_id i then references_loop scrape refs m (Suc c)
          else references_loop scrape refs m c)"
proof (cases "extract_arxiv_id_comprehensive ref")
  case None
  then show ?thesis by simp
next
  case (Some i)
  show ?thesis
  proof (cases "is_valid_arxiv_id i")
    case False
    with Some show ?thesis by (simp add: contributes_def)
  next
    case True
    then have ne: "i \<noteq> []" by (rule is_valid_nonempty)
    show ?thesis
    proof (cases "build_reference_metadata_accurate scrape ref i")
      case None
      then have "\<not> truthy (ref_title ref)"
        using build_reference_metadata_Some_iff [of scrape ref i] by simp
      with Some True ne None show ?thesis by (simp add: contributes_def)
    next
      case (Some d)
      then have "truthy (ref_title ref)"
        using build_reference_metadata_Some_iff [of scrape ref i] by simp
      with \<open>extract_arxiv_id_comprehensive ref = Some i\<close> True ne Some show ?thesis
        by (simp add: contributes_def)
    qed
  qed
qed

lemma contributes_unique: "contributes ref i \<Longrightarrow> contributes ref j \<Longrightarrow> j = i"
  by (simp add: contributes_def)

lemma reference_keys_Nil: "reference_keys [] = {}"
  by (simp add: reference_keys_def)

lemma reference_keys_None: "reference_keys (None # refs) = reference_keys refs"
  by (simp add: reference_keys_def)

lemma reference_keys_I:
  "Some ref \<in> set refs \<Longrightarrow> contributes ref i \<Longrightarrow> format_yymm_id i \<in> reference_keys refs"
  unfolding reference_keys_def by blast

lemma reference_keys_E:
  assumes "k \<in> reference_keys refs"
  obtains ref i where "k = format_yymm_id i" "Some ref \<in> set refs" "contributes ref i"
  using assms unfolding reference_keys_def by blast

lemma reference_keys_Some_yes:
  assumes c: "contributes ref i"
  shows "reference_keys (Some ref # refs) = insert (format_yymm_id i) (reference_keys refs)"
proof (intro set_eqI iffI)
  fix k assume "k \<in> reference_keys (Some ref # refs)"
  then obtain r j where k: "k = format_yymm_id j" "Some r \<in> set (Some ref # refs)" "contributes r j"
    by (rule reference_keys_E)
  show "k \<in> insert (format_yymm_id i) (reference_keys refs)"
  proof (cases "r = ref")
    case True
    with k(3) c have "j = i" by (simp add: contributes_unique)
    with k(1) show ?thesis by simp
  next
    case False
    with k(2) have "Some r \<in> set refs" by simp
    then have "k \<in> reference_keys refs" unfolding k(1) using k(3) by (rule reference_keys_I)
    then show ?thesis by simp
  qed
next
  fix k assume "k \<in> insert (format_yymm_id i) (reference_keys refs)"
  then consider "k = format_yymm_id i" | "k \<in> reference_keys refs" by blast
  then show "k \<in> reference_keys (Some ref # refs)"
  proof cases
    case 1
    have "Some ref \<in> set (Some ref # refs)" by simp
    then show ?thesis unfolding 1 using c by (rule reference_keys_I)
  next
    case 2
    then obtain r j where k: "k = format_yymm_id j" "Some r \<in> set refs" "contributes r j"
      by (rule reference_keys_E)
    from k(2) have "Some r \<in> set (Some ref # refs)" by simp
    then show ?thesis unfolding k(1) using k(3) by (rule reference_keys_I)
  qed
qed

lemma reference_keys_Some_no:
  assumes n: "\<And>j. \<not> contributes ref j"
  shows "reference_keys (Some ref # refs) = reference_keys refs"
proof (intro set_eqI iffI)
  fix k assume "k \<in> reference_keys (Some ref # refs)"
  then obtain r j where k: "k = format_yymm_id j" "Some r \<in> set (Some ref # refs)" "contributes r j"
    by (rule reference_keys_E)
  from k(3) n have "r \<noteq> ref" by blast
  with k(2) have "Some r \<in> set refs" by simp
  then show "k \<in> reference_keys refs" unfolding k(1) using k(3) by (rule reference_keys_I)
next
  fix k assume "k \<in> reference_keys refs"
  then obtain r j where k: "k = format_yymm_id j" "Some r \<in> set refs" "contributes r j"
    by (rule reference_keys_E)
  from k(2) have "Some r \<in> set (Some ref # refs)" by simp
  then show "k \<in> reference_keys (Some ref # refs)" unfolding k(1) using k(3) by (rule reference_keys_I)
qed

text \<open>
  The keys of the reference mapping are the normalized ids of the references that meet
  (a), (b) as the code checks it, and (c).
\<close>

lemma dom_references_loop:
  "dom (fst (references_loop scrape refs m c)) = dom m \<union> reference_keys refs"
proof (induction refs arbitrary: m c)
  case Nil
  show ?case by (simp add: reference_keys_Nil)
next
  case (Cons x refs)
  show ?case
  proof (cases x)
    case None
    then show ?thesis using Cons.IH [of m c] by (simp add: reference_keys_None)
  next
    case (Some ref)
    show ?thesis
    proof (cases "\<exists>i. contributes ref i")
      case True
      then obtain i where ci: "contributes ref i" by blast
      then have ex: "extract_arxiv_id_comprehensive ref = Some i" by (simp add: contributes_def)
      define m' where "m' = m(format_yymm_id i \<mapsto> the (build_reference_metadata_accurate scrape ref i))"
      have step: "references_loop scrape (x # refs) m c = references_loop scrape refs m' (Suc c)"
        unfolding m'_def Some using ex ci
        by (simp only: references_loop_step option.case if_True)
      have dm: "dom m' = insert (format_yymm_id i) (dom m)" by (simp add: m'_def)
      have "dom (fst (references_loop scrape (x # refs) m c)) = dom m' \<union> reference_keys refs"
        unfolding step by (rule Cons.IH)
      also have "\<dots> = dom m \<union> reference_keys (x # refs)"
        unfolding dm Some reference_keys_Some_yes [OF ci] by blast
      finally show ?thesis .
    next
      case False
      then have none: "\<And>j. \<not> contributes ref j" by blast
      have "references_loop scrape (x # refs) m c = references_loop scrape refs m c \<or>
            references_loop scrape (x # refs) m c = references_loop scrape refs m (Suc c)"
        unfolding Some references_loop_step using none
        by (cases "extract_arxiv_id_comprehensive ref") (simp_all only: option.case if_False, simp_all)
      then have "dom (fst (references_loop scrape (x # refs) m c)) = dom m \<union> reference_keys refs"
        using Cons.IH [of m c] Cons.IH [of m "Suc c"] by (elim disjE) (simp_all only:)
      then show ?thesis unfolding Some reference_keys_Some_no [OF none] .
    qed
  qed
qed

lemma dot_not_word: "\<not> is_word CHR ''.''"
  by (simp add: is_word_def)

lemma takeWhile_dropWhile_at:
  assumes "\<forall>x\<in>set xs. P x" "\<not> P y"
  shows "takeWhile P (xs @ y # ys) = xs" "dropWhile P (xs @ y # ys) = y # ys"
  using assms by simp_all

lemma split_at_first_failure:
  assumes "dropWhile P b = y # t"
  shows "b = takeWhile P b @ y # t" "\<forall>x\<in>set (takeWhile P b). P x" "\<not> P y"
proof -
  show "b = takeWhile P b @ y # t"
    using takeWhile_dropWhile_id [of P b] assms by simp
  show "\<forall>x\<in>set (takeWhile P b). P x" by (auto dest: set_takeWhileD)
  from assms have "hd (dropWhile P b) = y" "dropWhile P b \<noteq> []" by simp_all
  then show "\<not> P y" using hd_dropWhile [of P b] by auto
qed

lemma word_prefix_to_dot:
  assumes "dropWhile is_word b = CHR ''.'' # t"
  shows "takeWhile (\<lambda>c. c \<noteq> CHR ''.'') b = takeWhile is_word b"
    "dropWhile (\<lambda>c. c \<noteq> CHR ''.'') b = CHR ''.'' # t"
    "list_all is_word (takeWhile is_word b)"
proof -
  note s = split_at_first_failure [OF assms]
  have nd: "\<forall>x\<in>set (takeWhile is_word b). x \<noteq> CHR ''.''"
    using s(2) dot_not_word by auto
  have "takeWhile (\<lambda>c. c \<noteq> CHR ''.'') (takeWhile is_word b @ CHR ''.'' # t) = takeWhile is_word b"
    using nd by (intro takeWhile_dropWhile_at(1)) simp_all
  then show "takeWhile (\<lambda>c. c \<noteq> CHR ''.'') b = takeWhile is_word b" using s(1) by simp
  have "dropWhile (\<lambda>c. c \<noteq> CHR ''.'') (takeWhile is_word b @ CHR ''.'' # t) = CHR ''.'' # t"
    using nd by (intro takeWhile_dropWhile_at(2)) simp_all
  then show "dropWhile (\<lambda>c. c \<noteq> CHR ''.'') b = CHR ''.'' # t" using s(1) by simp
  show "list_all is_word (takeWhile is_word b)" using s(2) by (simp add: list_all_iff)
qed

lemma dot_prefix_to_word:
  assumes "dropWhile (\<lambda>c. c \<noteq> CHR ''.'') b = y # t"
    and "list_all is_word (takeWhile (\<lambda>c. c \<noteq> CHR ''.'') b)"
  shows "takeWhile is_word b = takeWhile (\<lambda>c. c \<noteq> CHR ''.'') b"
    "dropWhile is_word b = CHR ''.'' # t"
proof -
  note s = split_at_first_failure [OF assms(1)]
  from s(3) have y: "y = CHR ''.''" by simp
  let ?w = "takeWhile (\<lambda>c. c \<noteq> CHR ''.'') b"
  have w: "\<forall>x\<in>set ?w. is_word x" using assms(2) by (simp add: list_all_iff)
  have "takeWhile is_word (?w @ CHR ''.'' # t) = ?w"
    using w dot_not_word by (rule takeWhile_dropWhile_at(1))
  then show "takeWhile is_word b = ?w" using s(1) y by simp
  have "dropWhile is_word (?w @ CHR ''.'' # t) = CHR ''.'' # t"
    using w dot_not_word by (rule takeWhile_dropWhile_at(2))
  then show "dropWhile is_word b = CHR ''.'' # t" using s(1) y by simp
qed

lemma no_newline_last: "CHR 0x0A \<notin> set s \<Longrightarrow> \<not> (s \<noteq> [] \<and> last s = CHR 0x0A)"
  by (metis last_in_set)

lemma to_dollar_no_newline: "CHR 0x0A \<notin> set s \<Longrightarrow> to_dollar P s = P s"
  using no_newline_last [of s] by (auto simp: to_dollar_def)

lemma id_pattern_spec:
  assumes nl: "CHR 0x0A \<notin> set b"
  shows "id_pattern b = spec_id_format b"
proof -
  have core: "to_dollar id_core b = id_core b" using nl by (rule to_dollar_no_newline)
  have tl_nl: "CHR 0x0A \<notin> set (tl (dropWhile P b))" for P
    using nl by (metis list.set_sel(2) set_dropWhileD tl_Nil)
  let ?A = "takeWhile is_word b \<noteq> [] \<and> dropWhile is_word b \<noteq> [] \<and>
            hd (dropWhile is_word b) = CHR ''.'' \<and> to_dollar id_core (tl (dropWhile is_word b))"
  let ?B = "takeWhile (\<lambda>c. c \<noteq> CHR ''.'') b \<noteq> [] \<and>
            list_all is_word (takeWhile (\<lambda>c. c \<noteq> CHR ''.'') b) \<and>
            dropWhile (\<lambda>c. c \<noteq> CHR ''.'') b \<noteq> [] \<and> id_core (tl (dropWhile (\<lambda>c. c \<noteq> CHR ''.'') b))"
  have "?A = ?B"
  proof
    assume a: ?A
    then obtain t where d: "dropWhile is_word b = CHR ''.'' # t" by (cases "dropWhile is_word b") auto
    note p = word_prefix_to_dot [OF d]
    from a d have "to_dollar id_core t" by simp
    moreover have "CHR 0x0A \<notin> set t" using tl_nl [of is_word] d by simp
    ultimately have "id_core t" by (simp add: to_dollar_no_newline)
    with a p show ?B by simp
  next
    assume b: ?B
    then obtain y t where d: "dropWhile (\<lambda>c. c \<noteq> CHR ''.'') b = y # t"
      by (cases "dropWhile (\<lambda>c. c \<noteq> CHR ''.'') b") auto
    from b have w: "list_all is_word (takeWhile (\<lambda>c. c \<noteq> CHR ''.'') b)" by simp
    note p = dot_prefix_to_word [OF d w]
    have "CHR 0x0A \<notin> set t" using tl_nl [of "\<lambda>c. c \<noteq> CHR ''.''"] d by simp
    then have "to_dollar id_core t = id_core t" by (rule to_dollar_no_newline)
    with b d p show ?A by simp
  qed
  then show ?thesis unfolding id_pattern_def spec_id_format_def Let_def core by blast
qed

lemma sub_version_suffix_spec:
  assumes "CHR 0x0A \<notin> set i"
  shows "sub_version_suffix i = spec_strip_vK i"
proof -
  have "\<not> (i \<noteq> [] \<and> last i = CHR 0x0A)" using assms by (rule no_newline_last)
  then have c: "(i \<noteq> [] \<and> last i = CHR 0x0A) = False" by (simp only: simp_thms)
  show ?thesis unfolding sub_version_suffix_def spec_strip_vK_def c by (simp add: Let_def)
qed

lemma spec_strip_vK_subset: "set (spec_strip_vK i) \<subseteq> set i"
proof -
  have "set (tl (dropWhile is_digit (rev i))) \<subseteq> set i"
    by (metis list.set_sel(2) set_dropWhileD set_rev subsetI tl_Nil)
  then show ?thesis by (auto simp: spec_strip_vK_def Let_def)
qed

text \<open>
  On an id without a newline character the check of \<^verbatim>\<open>_is_valid_arxiv_id\<close> is the condition
  of the specification.
\<close>

lemma is_valid_arxiv_id_spec:
  assumes nl: "CHR 0x0A \<notin> set i"
  shows "is_valid_arxiv_id i = spec_id_format (spec_strip_vK i)"
proof (cases "i = []")
  case True
  then show ?thesis by (simp add: is_valid_arxiv_id_def spec_strip_vK_def spec_id_format_def)
next
  case False
  have "CHR 0x0A \<notin> set (spec_strip_vK i)" using nl spec_strip_vK_subset [of i] by auto
  then have "id_pattern (spec_strip_vK i) = spec_id_format (spec_strip_vK i)" by (rule id_pattern_spec)
  with False show ?thesis by (simp add: is_valid_arxiv_id_def sub_version_suffix_spec [OF nl])
qed

lemma reference_examples:
  "map_option rm_paper_title (fst (references_loop (\<lambda>i. [])
     [Some (ref_with_id ''2401.00001'' (Some ''T''))] Map.empty 0) ''2401-00001'') = Some ''T''"
  "map_option rm_paper_title (fst (references_loop (\<lambda>i. [])
     [Some (ref_with_url ''https://arxiv.org/abs/2401.00002'' (Some ''T''))] Map.empty 0) ''2401-00002'')
     = Some ''T''"
  "fst (references_loop (\<lambda>i. []) [Some (ref_with_id ''2401.00001'' None)] Map.empty 0) ''2401-00001''
     = None"
  by code_simp+

lemma dom_fetch_references:
  assumes "ss_get_cached st server = (Some (JData d), st1, n)" and "paper_venue_of d = Inr v"
  shows "dom (returned_references (fetch_references_and_paper_venue st server scrape)) =
    reference_keys (ss_references d)"
proof -
  obtain m c where l: "references_loop scrape (ss_references d) Map.empty 0 = (m, c)"
    by (cases "references_loop scrape (ss_references d) Map.empty 0")
  have "dom m = reference_keys (ss_references d)"
    using dom_references_loop [of scrape "ss_references d" Map.empty 0] l by simp
  then show ?thesis
    using assms l
    by (simp add: fetch_references_and_paper_venue_def returned_references_def Let_def)
qed

text \<open>
  C6 at a failing input: a raw reference whose \<^verbatim>\<open>externalIds\<close> give the id
  \<open>2401.00001\<close> followed by a newline, and whose title is \<open>T\<close>. The id is extracted, and
  after stripping a trailing \<open>vK\<close> it does not match the id format (it does not end in four
  or five digits), so by the claim the reference contributes no entry. The code enters it
  in the reference mapping under \<open>2401-00001\<close>: \<^verbatim>\<open>$\<close> in the pattern of
  \<^verbatim>\<open>_is_valid_arxiv_id\<close> also matches just before a final newline.
\<close>

theorem reference_with_newline_id_is_kept:
  "extract_arxiv_id_comprehensive (ref_with_id (''2401.00001'' @ [CHR 0x0A]) (Some ''T''))
     = Some (''2401.00001'' @ [CHR 0x0A]) \<and>
   \<not> spec_id_format (spec_strip_vK (''2401.00001'' @ [CHR 0x0A])) \<and>
   is_valid_arxiv_id (''2401.00001'' @ [CHR 0x0A]) \<and>
   map_option rm_paper_title
     (returned_references (fetch_references_and_paper_venue init_stats
        (response_with [Some (ref_with_id (''2401.00001'' @ [CHR 0x0A]) (Some ''T''))]) (\<lambda>i. []))
      ''2401-00001'') = Some ''T''"
  by code_simp

section \<open>Properties of the download step\<close>

lemma download_and_process_version_True:
  "(fst (download_and_process_version st env tar_path) = Inr True) = revision_ok (tar_path, env)"
  by (auto simp: download_and_process_version_def download_eprint_session_def revision_ok_def
      download_succeeded_def extraction_succeeded_def
      split: eprint_reply.splits option.splits if_splits)

lemma completed_loop_count:
  "fst (completed_loop st completed n) = n + length (filter revision_ok completed)"
proof (induction completed arbitrary: st n)
  case Nil
  show ?case by simp
next
  case (Cons x rest)
  obtain tar_path env where x: "x = (tar_path, env)" by (cases x)
  obtain r st1 where d: "download_and_process_version st env tar_path = (r, st1)"
    by (cases "download_and_process_version st env tar_path")
  have ok: "(r = Inr True) = revision_ok x"
    using download_and_process_version_True [of st env tar_path] d x by simp
  show ?case
  proof (cases "revision_ok x")
    case True
    with ok have "r = Inr True" by simp
    with d x True show ?thesis by (simp add: Cons.IH)
  next
    case False
    with ok have "r \<noteq> Inr True" by simp
    then have "completed_loop st (x # rest) n = completed_loop st1 rest n"
      using d x by (cases r) (auto split: bool.splits)
    with False show ?thesis by (simp add: Cons.IH)
  qed
qed

text \<open>
  C7. When the download step returns (its directory \<^verbatim>\<open>tex\<close> can be made), it returns the
  number of revisions whose download and extraction both succeeded, whatever the order in
  which the downloads complete; the outcome of one revision adds one or nothing to the count
  and leaves what the other revisions add unchanged; the count is at most the number of
  revisions.
\<close>

theorem download_versions_concurrently_count:
  "fst (download_versions_concurrently st True completed) =
     Inr (length (filter revision_ok completed)) \<and>
   fst (download_versions_concurrently st True (before @ x # after)) =
     Inr (length (filter revision_ok before) + (if revision_ok x then 1 else 0) +
          length (filter revision_ok after)) \<and>
   length (filter revision_ok completed) \<le> length completed"
proof -
  have c: "fst (download_versions_concurrently st True xs) = Inr (length (filter revision_ok xs))" for xs
    using completed_loop_count [of st xs 0]
    by (cases "completed_loop st xs 0") (simp add: download_versions_concurrently_def)
  show ?thesis using c [of completed] c [of "before @ x # after"] by simp
qed

theorem download_versions_concurrently_count_witness:
  "fst (download_versions_concurrently init_stats True
     [(''a/tex/av2.tar.gz'', missing_version), (''a/tex/av1.tar.gz'', good_version),
      (''a/tex/av3.tar.gz'', broken_archive)]) = Inr 1 \<and>
   revision_ok (''a/tex/av1.tar.gz'', good_version) \<and>
   \<not> revision_ok (''a/tex/av2.tar.gz'', missing_version) \<and>
   \<not> revision_ok (''a/tex/av3.tar.gz'', broken_archive)"
proof -
  have g: "revision_ok (''a/tex/av1.tar.gz'', good_version)"
    and m: "\<not> revision_ok (''a/tex/av2.tar.gz'', missing_version)"
    and b: "\<not> revision_ok (''a/tex/av3.tar.gz'', broken_archive)"
    by (simp_all add: revision_ok_def download_succeeded_def extraction_succeeded_def
        good_version_def missing_version_def broken_archive_def)
  from download_versions_concurrently_count
    [of init_stats "[(''a/tex/av2.tar.gz'', missing_version), (''a/tex/av1.tar.gz'', good_version),
      (''a/tex/av3.tar.gz'', broken_archive)]" "[]" "(''a/tex/av1.tar.gz'', good_version)" "[]"]
  have "fst (download_versions_concurrently init_stats True
     [(''a/tex/av2.tar.gz'', missing_version), (''a/tex/av1.tar.gz'', good_version),
      (''a/tex/av3.tar.gz'', broken_archive)]) = Inr 1"
    using g m b by simp
  with g m b show ?thesis by (intro conjI)
qed

section \<open>Properties of the orchestration of one paper\<close>

lemma paper_examples:
  "scrape_single_paper init_stats ''out'' ''2504.13946v2'' (paper_with entry_meta entry_meta True) =
     (Inr True,
      init_stats\<lparr>references_found := 1, references_with_arxiv := 1, ss_requests_made := 2,
        versions_found := 2, versions_downloaded := 2, files_removed := 6\<rparr>,
      [EnsureDir ''out/2504-13946'' True, SubmitRefs ''2504.13946'', SubmitMeta ''2504.13946'',
       SaveJson ''out/2504-13946/metadata.json'' True, SaveJson ''out/2504-13946/references.json'' True,
       EnsureDir ''out/2504-13946/tex'' True,
       SubmitDownload ''2504.13946v1'', SubmitDownload ''2504.13946v2''])"
  "scrape_single_paper init_stats ''out'' ''2504.13946v2'' (paper_with no_entry_meta no_entry_meta True) =
     (Inl TypeError,
      init_stats\<lparr>references_found := 1, references_with_arxiv := 1, ss_requests_made := 1\<rparr>,
      [EnsureDir ''out/2504-13946'' True, SubmitRefs ''2504.13946'', SubmitMeta ''2504.13946'',
       RetryMeta ''2504.13946'' None])"
  by code_simp+

lemma download_versions_concurrently_cases:
  "download_versions_concurrently st False xs = (Inl OSError, st)"
  "\<exists>n st'. download_versions_concurrently st True xs = (Inr n, st')"
  by (cases "completed_loop st xs 0"; simp add: download_versions_concurrently_def)+

lemma ss_get_cached_data: "fst (ss_get_cached st server) = fst (ss_get_cached st' server)"
proof -
  obtain r n where g: "session_get retry_total server 0 = (r, n)"
    by (cases "session_get retry_total server 0")
  then show ?thesis
    by (cases r) (simp_all add: ss_get_cached_def Let_def split: option.splits)
qed

text \<open>
  A metadata fetch returns no metadata when its primary lookup gives no entry, and when it
  has to read the venue reply (no override) and reading it raises; in no other case.
\<close>

lemma fetch_metadata_None_iff:
  "(fst (fst (fetch_metadata_with_complete_versions st arxiv_id env venue_override)) = None) =
     ((\<forall>p. m_primary env \<noteq> Entry p) \<or> (\<not> truthy venue_override \<and> venue_raises env))"
proof (cases "m_primary env")
  case (Entry p)
  define st1 where "st1 = st\<lparr>versions_found := versions_found st +
      length (if discover_all_versions (m_completion env) (m_probe env) (m_recheck env) = [] then [1]
              else discover_all_versions (m_completion env) (m_probe env) (m_recheck env))\<rparr>"
  obtain data st' n where g: "ss_get_cached st1 (m_venue_server env) = (data, st', n)"
    by (cases "ss_get_cached st1 (m_venue_server env)")
  have "data = venue_data_of env"
    using ss_get_cached_data [of st1 "m_venue_server env" init_stats] g
    by (simp add: venue_data_of_def)
  then have r: "venue_raises env = isl (venue_of_data data)" by (simp add: venue_raises_def)
  show ?thesis
  proof (cases "truthy venue_override")
    case True
    with Entry show ?thesis
      by (simp add: fetch_metadata_with_complete_versions_def Let_def)
  next
    case False
    show ?thesis
    proof (cases "venue_of_data data")
      case (Inl e)
      with Entry False g r show ?thesis
        by (simp add: fetch_metadata_with_complete_versions_def Let_def st1_def)
    next
      case (Inr v)
      with Entry False g r show ?thesis
        by (simp add: fetch_metadata_with_complete_versions_def Let_def st1_def)
    qed
  qed
qed (simp_all add: fetch_metadata_with_complete_versions_def)

lemma scrape_single_paper_shape:
  "\<exists>ids. events_of st output_dir arxiv_id env =
       run_events output_dir arxiv_id env (venue_from_refs_of st env)
         (first_meta_result st arxiv_id env = None)
         (first_meta_result st arxiv_id env = None \<and> second_meta_result st arxiv_id env = None) ids"
  "result_of st output_dir arxiv_id env =
     (if \<not> paper_dir_ok env then Inl OSError
      else if first_meta_result st arxiv_id env = None \<and> second_meta_result st arxiv_id env = None
        then Inl TypeError
      else if \<not> tex_root_ok env then Inl OSError
      else Inr True)"
proof -
  obtain references venue st1 where jr: "join_refs st env = ((references, venue), st1)"
    by (metis surj_pair)
  obtain meta1 versions1 st2 where
    jm: "join_meta st1 (base_dot_id_of arxiv_id) env = ((meta1, versions1), st2)"
    by (metis surj_pair)
  obtain meta2 versions2 st3 where
    sm: "fetch_metadata_with_complete_versions st2 (base_dot_id_of arxiv_id) (second_meta env) venue
           = ((meta2, versions2), st3)"
    by (metis surj_pair)
  have v: "venue_from_refs_of st env = venue" by (simp add: venue_from_refs_of_def jr)
  have f: "first_meta_result st arxiv_id env = meta1" by (simp add: first_meta_result_def jr jm)
  have s: "second_meta_result st arxiv_id env = meta2"
    by (simp add: second_meta_result_def jr jm sm v)
  define dl where "dl vs stx = download_versions_concurrently stx (tex_root_ok env)
      (map (\<lambda>(version_num, version_id).
              (tar_path_of output_dir arxiv_id version_num, version_envs env version_id))
           (completed_order env vs))" for vs stx
  have dl_cases: "(\<not> tex_root_ok env \<and> dl vs stx = (Inl OSError, stx)) \<or>
      (tex_root_ok env \<and> (\<exists>n st'. dl vs stx = (Inr n, st')))" for vs stx
    unfolding dl_def using download_versions_concurrently_cases by (cases "tex_root_ok env") simp_all
  have ids: "map (\<lambda>(version_num, version_id). SubmitDownload version_id) vs
      = map SubmitDownload (map snd vs)" for vs :: "(nat \<times> string) list"
    by (induction vs) auto
  show "\<exists>ids. events_of st output_dir arxiv_id env =
       run_events output_dir arxiv_id env (venue_from_refs_of st env)
         (first_meta_result st arxiv_id env = None)
         (first_meta_result st arxiv_id env = None \<and> second_meta_result st arxiv_id env = None) ids"
  proof (cases "paper_dir_ok env")
    case False
    then show ?thesis
      by (simp add: events_of_def scrape_single_paper_def run_events_def Let_def)
  next
    case True
    show ?thesis
    proof (cases meta1)
      case None
      show ?thesis
      proof (cases meta2)
        case n2: None
        show ?thesis unfolding v f s
          using True None n2 jr jm sm
          by (simp add: events_of_def scrape_single_paper_def run_events_def Let_def)
      next
        case (Some m)
        from dl_cases [of versions2 st3] show ?thesis unfolding v f s
          using True None Some jr jm sm ids [of versions2]
          by (intro exI [of _ "map snd versions2"])
             (auto simp: events_of_def scrape_single_paper_def run_events_def Let_def dl_def)
      qed
    next
      case (Some m)
      from dl_cases [of versions1 st2] show ?thesis unfolding v f s
        using True Some jr jm ids [of versions1]
        by (intro exI [of _ "map snd versions1"])
           (auto simp: events_of_def scrape_single_paper_def run_events_def Let_def dl_def)
    qed
  qed
  show "result_of st output_dir arxiv_id env =
     (if \<not> paper_dir_ok env then Inl OSError
      else if first_meta_result st arxiv_id env = None \<and> second_meta_result st arxiv_id env = None
        then Inl TypeError
      else if \<not> tex_root_ok env then Inl OSError
      else Inr True)"
  proof (cases "paper_dir_ok env")
    case False
    then show ?thesis
      by (simp add: result_of_def scrape_single_paper_def Let_def)
  next
    case True
    show ?thesis
    proof (cases meta1)
      case None
      show ?thesis
      proof (cases meta2)
        case n2: None
        show ?thesis unfolding f s
          using True None n2 jr jm sm
          by (simp add: result_of_def scrape_single_paper_def Let_def)
      next
        case (Some m)
        from dl_cases [of versions2 st3] show ?thesis unfolding f s
          using True None Some jr jm sm
          by (auto simp: result_of_def scrape_single_paper_def Let_def dl_def)
      qed
    next
      case (Some m)
      from dl_cases [of versions1 st2] show ?thesis unfolding f s
        using True Some jr jm
        by (auto simp: result_of_def scrape_single_paper_def Let_def dl_def)
    qed
  qed
qed

lemma first_meta_result_None_iff:
  "(first_meta_result st arxiv_id env = None) =
     (meta_timed_out env \<or> (\<forall>p. m_primary (first_meta env) \<noteq> Entry p) \<or>
      venue_raises (first_meta env))"
  unfolding first_meta_result_def join_meta_def
  using fetch_metadata_None_iff [of "snd (join_refs st env)" "base_dot_id_of arxiv_id" "first_meta env" None]
  by (cases "meta_timed_out env") (simp_all add: truthy_def)

lemma second_meta_result_None_iff:
  "(second_meta_result st arxiv_id env = None) =
     ((\<forall>p. m_primary (second_meta env) \<noteq> Entry p) \<or>
      (\<not> truthy (venue_from_refs_of st env) \<and> venue_raises (second_meta env)))"
  unfolding second_meta_result_def by (rule fetch_metadata_None_iff)



lemma entry_meta_reads: "\<not> venue_raises entry_meta"
  by code_simp




lemma downloads_after_prefix:
  assumes pre: "\<forall>e\<in>set pre. \<not> is_download e"
    and i: "i < length (pre @ xs)" and d: "is_download ((pre @ xs) ! i)"
  shows "set pre \<subseteq> set (take i (pre @ xs))"
proof -
  have "length pre \<le> i"
  proof (rule ccontr)
    assume "\<not> length pre \<le> i"
    then have lt: "i < length pre" by simp
    then have "(pre @ xs) ! i = pre ! i" by (simp add: nth_append)
    moreover have "pre ! i \<in> set pre" using lt by simp
    ultimately show False using pre d by auto
  qed
  then have "take i (pre @ xs) = pre @ take (i - length pre) xs" by simp
  then show ?thesis by simp
qed

lemma written_if_saved: "SaveJson p ok \<in> set xs \<Longrightarrow> ok \<Longrightarrow> p \<in> files_written xs"
  by (simp add: files_written_def)

lemma run_events_split:
  "\<exists>pre ds. run_events output_dir arxiv_id env venue retried failed ids = pre @ map SubmitDownload ds \<and>
     (\<forall>e\<in>set pre. \<not> is_download e) \<and>
     (ds \<noteq> [] \<longrightarrow>
        SaveJson (metadata_json output_dir arxiv_id) (save_meta_ok env) \<in> set pre \<and>
        SaveJson (references_json output_dir arxiv_id) (save_refs_ok env) \<in> set pre)"
proof (cases "paper_dir_ok env \<and> \<not> failed \<and> tex_root_ok env")
  case True
  let ?pre = "[EnsureDir (paper_dir_of output_dir arxiv_id) True,
      SubmitRefs (base_dot_id_of arxiv_id), SubmitMeta (base_dot_id_of arxiv_id)] @
      (if retried then [RetryMeta (base_dot_id_of arxiv_id) venue] else []) @
      [SaveJson (metadata_json output_dir arxiv_id) (save_meta_ok env),
       SaveJson (references_json output_dir arxiv_id) (save_refs_ok env),
       EnsureDir (tex_root_of output_dir arxiv_id) True]"
  have "run_events output_dir arxiv_id env venue retried failed ids = ?pre @ map SubmitDownload ids"
    using True by (simp add: run_events_def)
  moreover have "\<forall>e\<in>set ?pre. \<not> is_download e" by (simp add: is_download_def)
  moreover have "SaveJson (metadata_json output_dir arxiv_id) (save_meta_ok env) \<in> set ?pre"
    "SaveJson (references_json output_dir arxiv_id) (save_refs_ok env) \<in> set ?pre" by simp_all
  ultimately show ?thesis by blast
next
  case False
  let ?t = "run_events output_dir arxiv_id env venue retried failed ids"
  have "\<forall>e\<in>set ?t. \<not> is_download e"
    using False by (auto simp: run_events_def is_download_def)
  moreover have "?t = ?t @ map SubmitDownload []" by simp
  ultimately show ?thesis by blast
qed

text \<open>
  C3, as stated, fails: in this run the write of \<^verbatim>\<open>metadata.json\<close> fails inside
  \<^verbatim>\<open>_save_json\<close>, which logs the exception and returns; the run goes on to submit the
  downloads, and \<^verbatim>\<open>metadata.json\<close> is not written at any point of the run.
\<close>

theorem download_without_metadata_file:
  "events_of init_stats ''out'' ''2504.13946v2'' (paper_with entry_meta entry_meta False) ! 6
     = SubmitDownload ''2504.13946v1'' \<and>
   ''out/2504-13946/metadata.json'' \<notin>
     files_written (events_of init_stats ''out'' ''2504.13946v2'' (paper_with entry_meta entry_meta False))"
proof -
  have "events_of init_stats ''out'' ''2504.13946v2'' (paper_with entry_meta entry_meta False) =
      [EnsureDir ''out/2504-13946'' True, SubmitRefs ''2504.13946'', SubmitMeta ''2504.13946'',
       SaveJson ''out/2504-13946/metadata.json'' False, SaveJson ''out/2504-13946/references.json'' True,
       EnsureDir ''out/2504-13946/tex'' True,
       SubmitDownload ''2504.13946v1'', SubmitDownload ''2504.13946v2'']"
    by code_simp
  then show ?thesis by (simp add: files_written_def)
qed

text \<open>
  C3, amended. In every run, before the download of any revision is submitted, both
  \<^verbatim>\<open>_save_json\<close> calls, for \<^verbatim>\<open>metadata.json\<close> and for \<^verbatim>\<open>references.json\<close> in the paper's
  directory, have been made and have returned; each file whose write went through is
  written by then. (A write that fails is logged and does not stop the run.)
\<close>

theorem persistence_before_download:
  assumes "i < length (events_of st output_dir arxiv_id env)"
    and "is_download (events_of st output_dir arxiv_id env ! i)"
  shows "SaveJson (metadata_json output_dir arxiv_id) (save_meta_ok env)
           \<in> set (take i (events_of st output_dir arxiv_id env)) \<and>
         SaveJson (references_json output_dir arxiv_id) (save_refs_ok env)
           \<in> set (take i (events_of st output_dir arxiv_id env)) \<and>
         (save_meta_ok env \<longrightarrow>
            metadata_json output_dir arxiv_id \<in> files_written (take i (events_of st output_dir arxiv_id env))) \<and>
         (save_refs_ok env \<longrightarrow>
            references_json output_dir arxiv_id \<in> files_written (take i (events_of st output_dir arxiv_id env)))"
proof -
  define t where "t = events_of st output_dir arxiv_id env"
  define M where "M = SaveJson (metadata_json output_dir arxiv_id) (save_meta_ok env)"
  define R where "R = SaveJson (references_json output_dir arxiv_id) (save_refs_ok env)"
  from scrape_single_paper_shape(1) [of st output_dir arxiv_id env]
  obtain ids where sh: "t =
       run_events output_dir arxiv_id env (venue_from_refs_of st env)
         (first_meta_result st arxiv_id env = None)
         (first_meta_result st arxiv_id env = None \<and> second_meta_result st arxiv_id env = None) ids"
    unfolding t_def by (elim exE)
  from run_events_split [of output_dir arxiv_id env "venue_from_refs_of st env"
      "first_meta_result st arxiv_id env = None"
      "first_meta_result st arxiv_id env = None \<and> second_meta_result st arxiv_id env = None" ids]
  obtain pre ds where s: "t = pre @ map SubmitDownload ds \<and> (\<forall>e\<in>set pre. \<not> is_download e) \<and>
      (ds \<noteq> [] \<longrightarrow> M \<in> set pre \<and> R \<in> set pre)"
    unfolding sh [symmetric] M_def R_def by (elim exE)
  note s1 = s [THEN conjunct1] and s2 = s [THEN conjunct2, THEN conjunct1]
    and s3 = s [THEN conjunct2, THEN conjunct2]
  have i: "i < length (pre @ map SubmitDownload ds)" using assms(1) unfolding t_def [symmetric] s1 .
  have d: "is_download ((pre @ map SubmitDownload ds) ! i)"
    using assms(2) unfolding t_def [symmetric] s1 .
  have sub: "set pre \<subseteq> set (take i (pre @ map SubmitDownload ds))"
    using s2 i d by (rule downloads_after_prefix)
  have ne: "ds \<noteq> []"
  proof
    assume e: "ds = []"
    from i e have "i < length pre" by simp
    then have "pre ! i \<in> set pre" by simp
    moreover from d e have "is_download (pre ! i)" by simp
    ultimately show False using s2 by blast
  qed
  from s3 ne have "M \<in> set pre" "R \<in> set pre" by simp_all
  with sub have m: "M \<in> set (take i t)" and r: "R \<in> set (take i t)"
    unfolding s1 by (blast+)
  have fm: "save_meta_ok env \<longrightarrow> metadata_json output_dir arxiv_id \<in> files_written (take i t)"
    using m unfolding M_def by (intro impI) (rule written_if_saved)
  have fr: "save_refs_ok env \<longrightarrow> references_json output_dir arxiv_id \<in> files_written (take i t)"
    using r unfolding R_def by (intro impI) (rule written_if_saved)
  show ?thesis using m r fm fr unfolding t_def M_def R_def by (intro conjI)
qed

theorem persistence_before_download_witness:
  "6 < length (events_of init_stats ''out'' ''2504.13946v2'' (paper_with entry_meta entry_meta True)) \<and>
   is_download (events_of init_stats ''out'' ''2504.13946v2'' (paper_with entry_meta entry_meta True) ! 6) \<and>
   save_meta_ok (paper_with entry_meta entry_meta True) \<and>
   save_refs_ok (paper_with entry_meta entry_meta True) \<and>
   metadata_json ''out'' ''2504.13946v2'' \<in> files_written
     (take 6 (events_of init_stats ''out'' ''2504.13946v2'' (paper_with entry_meta entry_meta True))) \<and>
   references_json ''out'' ''2504.13946v2'' \<in> files_written
     (take 6 (events_of init_stats ''out'' ''2504.13946v2'' (paper_with entry_meta entry_meta True)))"
proof -
  let ?e = "paper_with entry_meta entry_meta True"
  have ev: "events_of init_stats ''out'' ''2504.13946v2'' ?e =
      [EnsureDir ''out/2504-13946'' True, SubmitRefs ''2504.13946'', SubmitMeta ''2504.13946'',
       SaveJson ''out/2504-13946/metadata.json'' True, SaveJson ''out/2504-13946/references.json'' True,
       EnsureDir ''out/2504-13946/tex'' True,
       SubmitDownload ''2504.13946v1'', SubmitDownload ''2504.13946v2'']"
    by code_simp
  have h1: "6 < length (events_of init_stats ''out'' ''2504.13946v2'' ?e)" unfolding ev by simp
  have h2: "is_download (events_of init_stats ''out'' ''2504.13946v2'' ?e ! 6)"
    unfolding ev by (simp add: is_download_def)
  have h3: "save_meta_ok ?e" and h4: "save_refs_ok ?e" by (simp_all add: paper_with_def)
  note t = persistence_before_download [OF h1 h2]
  from t h3 have c1: "metadata_json ''out'' ''2504.13946v2'' \<in> files_written
     (take 6 (events_of init_stats ''out'' ''2504.13946v2'' ?e))" by blast
  from t h4 have c2: "references_json ''out'' ''2504.13946v2'' \<in> files_written
     (take 6 (events_of init_stats ''out'' ''2504.13946v2'' ?e))" by blast
  show ?thesis by (intro conjI h1 h2 h3 h4 c1 c2)
qed

lemma run_events_head:
  "\<exists>rest. run_events output_dir arxiv_id env venue retried failed ids =
       EnsureDir (paper_dir_of output_dir arxiv_id) (paper_dir_ok env) # rest \<and>
     (\<not> paper_dir_ok env \<longrightarrow> rest = [])"
  by (simp add: run_events_def)

lemma fetch_after_directory:
  assumes t: "t = EnsureDir pd ok # rest" and r: "\<not> ok \<longrightarrow> rest = []"
    and i: "i < length t" and f: "is_fetch (t ! i)"
  shows "EnsureDir pd True \<in> set (take i t)"
proof (cases i)
  case 0
  with t f show ?thesis by (simp add: is_fetch_def)
next
  case (Suc k)
  with i t have "rest \<noteq> []" by auto
  with r have "ok" by blast
  with t Suc show ?thesis by simp
qed

lemma run_events_failed:
  "paper_dir_ok env \<Longrightarrow>
   run_events output_dir arxiv_id env venue True True ids =
     [EnsureDir (paper_dir_of output_dir arxiv_id) True, SubmitRefs (base_dot_id_of arxiv_id),
      SubmitMeta (base_dot_id_of arxiv_id), RetryMeta (base_dot_id_of arxiv_id) venue]"
  by (simp add: run_events_def)

text \<open>
  C10. In every run the paper's directory has been made before any fetch is issued. When
  the run fails hard (no metadata from the concurrent fetch nor from the second call), the
  exception is raised with no \<^verbatim>\<open>_save_json\<close> call made, so neither \<^verbatim>\<open>metadata.json\<close> nor
  \<^verbatim>\<open>references.json\<close> is written, while the paper's directory has been made.
\<close>

theorem directory_made_before_fetch_and_left_on_failure:
  "(\<forall>i<length (events_of st output_dir arxiv_id env).
      is_fetch (events_of st output_dir arxiv_id env ! i) \<longrightarrow>
      EnsureDir (paper_dir_of output_dir arxiv_id) True
        \<in> set (take i (events_of st output_dir arxiv_id env))) \<and>
   (paper_dir_ok env \<and> first_meta_result st arxiv_id env = None \<and>
      second_meta_result st arxiv_id env = None \<longrightarrow>
      result_of st output_dir arxiv_id env = Inl TypeError \<and>
      filter is_save (events_of st output_dir arxiv_id env) = [] \<and>
      files_written (events_of st output_dir arxiv_id env) = {} \<and>
      paper_dir_of output_dir arxiv_id \<in> dirs_made (events_of st output_dir arxiv_id env))"
proof -
  define t where "t = events_of st output_dir arxiv_id env"
  define pd where "pd = paper_dir_of output_dir arxiv_id"
  from scrape_single_paper_shape(1) [of st output_dir arxiv_id env]
  obtain ids where sh: "t =
       run_events output_dir arxiv_id env (venue_from_refs_of st env)
         (first_meta_result st arxiv_id env = None)
         (first_meta_result st arxiv_id env = None \<and> second_meta_result st arxiv_id env = None) ids"
    unfolding t_def by (elim exE)
  from run_events_head [of output_dir arxiv_id env "venue_from_refs_of st env"
      "first_meta_result st arxiv_id env = None"
      "first_meta_result st arxiv_id env = None \<and> second_meta_result st arxiv_id env = None" ids]
  obtain rest where h: "t = EnsureDir pd (paper_dir_ok env) # rest \<and> (\<not> paper_dir_ok env \<longrightarrow> rest = [])"
    unfolding sh [symmetric] pd_def by (elim exE)
  have a: "\<forall>i<length t. is_fetch (t ! i) \<longrightarrow> EnsureDir pd True \<in> set (take i t)"
    using fetch_after_directory [OF h [THEN conjunct1] h [THEN conjunct2]] by blast
  have b: "result_of st output_dir arxiv_id env = Inl TypeError \<and> filter is_save t = [] \<and>
      files_written t = {} \<and> pd \<in> dirs_made t"
    if ok: "paper_dir_ok env" and n1: "first_meta_result st arxiv_id env = None"
      and n2: "second_meta_result st arxiv_id env = None"
  proof -
    have t4: "t = [EnsureDir pd True, SubmitRefs (base_dot_id_of arxiv_id),
        SubmitMeta (base_dot_id_of arxiv_id),
        RetryMeta (base_dot_id_of arxiv_id) (venue_from_refs_of st env)]"
      unfolding sh pd_def using n1 n2 run_events_failed [OF ok] by simp
    have "result_of st output_dir arxiv_id env = Inl TypeError"
      using ok n1 n2 by (simp add: scrape_single_paper_shape(2))
    moreover have "filter is_save t = []" unfolding t4 by (simp add: is_save_def)
    moreover have "files_written t = {}" unfolding t4 by (simp add: files_written_def)
    moreover have "pd \<in> dirs_made t" unfolding t4 by (simp add: dirs_made_def)
    ultimately show ?thesis by (intro conjI)
  qed
  show ?thesis using a b unfolding t_def pd_def by blast
qed

theorem directory_made_before_fetch_and_left_on_failure_witness:
  "paper_dir_ok (paper_with no_entry_meta no_entry_meta True) \<and>
   first_meta_result init_stats ''2504.13946v2'' (paper_with no_entry_meta no_entry_meta True) = None \<and>
   second_meta_result init_stats ''2504.13946v2'' (paper_with no_entry_meta no_entry_meta True) = None \<and>
   result_of init_stats ''out'' ''2504.13946v2'' (paper_with no_entry_meta no_entry_meta True)
     = Inl TypeError \<and>
   files_written (events_of init_stats ''out'' ''2504.13946v2''
     (paper_with no_entry_meta no_entry_meta True)) = {} \<and>
   paper_dir_of ''out'' ''2504.13946v2'' \<in> dirs_made (events_of init_stats ''out'' ''2504.13946v2''
     (paper_with no_entry_meta no_entry_meta True)) \<and>
   1 < length (events_of init_stats ''out'' ''2504.13946v2'' (paper_with no_entry_meta no_entry_meta True)) \<and>
   is_fetch (events_of init_stats ''out'' ''2504.13946v2'' (paper_with no_entry_meta no_entry_meta True) ! 1) \<and>
   EnsureDir (paper_dir_of ''out'' ''2504.13946v2'') True \<in> set (take 1
     (events_of init_stats ''out'' ''2504.13946v2'' (paper_with no_entry_meta no_entry_meta True)))"
proof -
  let ?e = "paper_with no_entry_meta no_entry_meta True"
  have h1: "paper_dir_ok ?e" by (simp add: paper_with_def)
  have h2: "first_meta_result init_stats ''2504.13946v2'' ?e = None"
    by (simp add: first_meta_result_None_iff paper_with_def no_entry_meta_def)
  have h3: "second_meta_result init_stats ''2504.13946v2'' ?e = None"
    by (simp add: second_meta_result_None_iff paper_with_def no_entry_meta_def)
  have ev: "events_of init_stats ''out'' ''2504.13946v2'' ?e =
      [EnsureDir ''out/2504-13946'' True, SubmitRefs ''2504.13946'', SubmitMeta ''2504.13946'',
       RetryMeta ''2504.13946'' None]"
    by code_simp
  have h4: "1 < length (events_of init_stats ''out'' ''2504.13946v2'' ?e)" unfolding ev by simp
  have h5: "is_fetch (events_of init_stats ''out'' ''2504.13946v2'' ?e ! 1)"
    unfolding ev by (simp add: is_fetch_def)
  note t = directory_made_before_fetch_and_left_on_failure
    [where env = ?e and st = init_stats and arxiv_id = "''2504.13946v2''" and output_dir = "''out''"]
  from t h1 h2 h3 have c: "result_of init_stats ''out'' ''2504.13946v2'' ?e = Inl TypeError \<and>
      filter is_save (events_of init_stats ''out'' ''2504.13946v2'' ?e) = [] \<and>
      files_written (events_of init_stats ''out'' ''2504.13946v2'' ?e) = {} \<and>
      paper_dir_of ''out'' ''2504.13946v2'' \<in> dirs_made (events_of init_stats ''out'' ''2504.13946v2'' ?e)"
    by blast
  from t [THEN conjunct1] h4 h5 have d: "EnsureDir (paper_dir_of ''out'' ''2504.13946v2'') True
      \<in> set (take 1 (events_of init_stats ''out'' ''2504.13946v2'' ?e))" by blast
  show ?thesis
    by (intro conjI h1 h2 h3 c [THEN conjunct1] c [THEN conjunct2, THEN conjunct2, THEN conjunct1]
        c [THEN conjunct2, THEN conjunct2, THEN conjunct2] h4 h5 d)
qed

section \<open>Properties of the batch\<close>

lemma papers_loop_counts:
  "papers_attempted (papers_loop st futs) = papers_attempted st + length futs"
  "papers_successful (papers_loop st futs) =
     papers_successful st + length (filter (\<lambda>f. f = Returned True) futs)"
  "papers_failed (papers_loop st futs) =
     papers_failed st + length (filter (\<lambda>f. f \<noteq> Returned True) futs)"
proof (induction futs arbitrary: st)
  case Nil
  { case 1 show ?case by simp }
  { case 2 show ?case by simp }
  { case 3 show ?case by simp }
next
  case (Cons fut futs)
  { case 1 show ?case by (cases fut) (simp_all add: Let_def Cons.IH(1)) }
  { case 2 show ?case by (cases fut) (simp_all add: Let_def Cons.IH(2)) }
  { case 3 show ?case by (cases fut) (simp_all add: Let_def Cons.IH(3)) }
qed

lemma hard_failure_is_False:
  "fails_hard st (arxiv_id, env) \<Longrightarrow> scrape_single_paper_safe st output_dir arxiv_id env = False"
  using scrape_single_paper_shape(2) [of st output_dir arxiv_id env]
  by (simp add: fails_hard_def scrape_single_paper_safe_def result_of_def)

lemma scrape_papers_counts:
  "papers_attempted (scrape_papers st output_dir papers) = papers_attempted st + length papers"
  "papers_successful (scrape_papers st output_dir papers) =
     papers_successful st +
     length (filter (\<lambda>x. scrape_single_paper_safe st output_dir (fst x) (snd x)) papers)"
  "papers_failed (scrape_papers st output_dir papers) =
     papers_failed st +
     length (filter (\<lambda>x. \<not> scrape_single_paper_safe st output_dir (fst x) (snd x)) papers)"
proof -
  let ?f = "\<lambda>(arxiv_id, env). Returned (scrape_single_paper_safe st output_dir arxiv_id env)"
  have a: "filter (\<lambda>f. f = Returned True) (map ?f papers) =
      map ?f (filter (\<lambda>x. scrape_single_paper_safe st output_dir (fst x) (snd x)) papers)"
    by (induction papers) auto
  have b: "filter (\<lambda>f. f \<noteq> Returned True) (map ?f papers) =
      map ?f (filter (\<lambda>x. \<not> scrape_single_paper_safe st output_dir (fst x) (snd x)) papers)"
    by (induction papers) auto
  show "papers_attempted (scrape_papers st output_dir papers) = papers_attempted st + length papers"
    by (simp add: scrape_papers_def papers_loop_counts(1))
  show "papers_successful (scrape_papers st output_dir papers) =
     papers_successful st +
     length (filter (\<lambda>x. scrape_single_paper_safe st output_dir (fst x) (snd x)) papers)"
    unfolding scrape_papers_def papers_loop_counts(2) a by simp
  show "papers_failed (scrape_papers st output_dir papers) =
     papers_failed st +
     length (filter (\<lambda>x. \<not> scrape_single_paper_safe st output_dir (fst x) (snd x)) papers)"
    unfolding scrape_papers_def papers_loop_counts(3) b by simp
qed

text \<open>
  C5. A paper whose run fails hard does not end the batch: \<^verbatim>\<open>_scrape_single_paper_safe\<close>
  turns its exception into \<^verbatim>\<open>False\<close>. With such a paper anywhere in the batch, the batch
  counts one more failed paper than without it, as many successful papers as without it
  (each other paper is counted by its own outcome), and one more attempted paper. After
  every batch, attempted equals successful plus failed, when it did before (as it does at
  the start, when all three are zero).
\<close>

theorem batch_isolation:
  assumes "fails_hard st x"
  shows "papers_failed (scrape_papers st output_dir (before @ x # after)) =
           papers_failed (scrape_papers st output_dir (before @ after)) + 1 \<and>
         papers_successful (scrape_papers st output_dir (before @ x # after)) =
           papers_successful (scrape_papers st output_dir (before @ after)) \<and>
         papers_attempted (scrape_papers st output_dir (before @ x # after)) =
           papers_attempted (scrape_papers st output_dir (before @ after)) + 1 \<and>
         papers_successful (scrape_papers st output_dir papers) =
           papers_successful st +
           length (filter (\<lambda>p. scrape_single_paper_safe st output_dir (fst p) (snd p)) papers) \<and>
         (papers_attempted st = papers_successful st + papers_failed st \<longrightarrow>
            papers_attempted (scrape_papers st output_dir papers) =
              papers_successful (scrape_papers st output_dir papers) +
              papers_failed (scrape_papers st output_dir papers))"
proof -
  have "fails_hard st (fst x, snd x)" using assms by simp
  then have x: "\<not> scrape_single_paper_safe st output_dir (fst x) (snd x)"
    using hard_failure_is_False [of st "fst x" "snd x" output_dir] by simp
  have len: "length (filter P papers) + length (filter (\<lambda>p. \<not> P p) papers) = length papers"
    for P :: "string \<times> paper_env \<Rightarrow> bool"
    using sum_length_filter_compl [of P papers] by simp
  have inv: "papers_attempted st = papers_successful st + papers_failed st \<longrightarrow>
      papers_attempted (scrape_papers st output_dir papers) =
        papers_successful (scrape_papers st output_dir papers) +
        papers_failed (scrape_papers st output_dir papers)"
    unfolding scrape_papers_counts
    using len [of "\<lambda>p. scrape_single_paper_safe st output_dir (fst p) (snd p)"] by simp
  show ?thesis
    using x inv by (simp add: scrape_papers_counts)
qed

theorem batch_isolation_witness:
  "fails_hard init_stats (''2504.13947'', paper_with no_entry_meta no_entry_meta True) \<and>
   papers_failed (scrape_papers init_stats ''out''
     ([(''2504.13946'', paper_with entry_meta entry_meta True)] @
      (''2504.13947'', paper_with no_entry_meta no_entry_meta True) #
      [(''2504.13948'', paper_with entry_meta entry_meta True)])) =
   papers_failed (scrape_papers init_stats ''out''
     ([(''2504.13946'', paper_with entry_meta entry_meta True)] @
      [(''2504.13948'', paper_with entry_meta entry_meta True)])) + 1 \<and>
   papers_attempted init_stats = papers_successful init_stats + papers_failed init_stats \<and>
   papers_attempted (scrape_papers init_stats ''out''
     [(''2504.13946'', paper_with entry_meta entry_meta True),
      (''2504.13947'', paper_with no_entry_meta no_entry_meta True)]) =
   papers_successful (scrape_papers init_stats ''out''
     [(''2504.13946'', paper_with entry_meta entry_meta True),
      (''2504.13947'', paper_with no_entry_meta no_entry_meta True)]) +
   papers_failed (scrape_papers init_stats ''out''
     [(''2504.13946'', paper_with entry_meta entry_meta True),
      (''2504.13947'', paper_with no_entry_meta no_entry_meta True)])"
proof -
  let ?x = "(''2504.13947'', paper_with no_entry_meta no_entry_meta True)"
  let ?g = "paper_with entry_meta entry_meta True"
  have h: "fails_hard init_stats ?x"
    by (simp add: fails_hard_def first_meta_result_None_iff second_meta_result_None_iff
        paper_with_def no_entry_meta_def)
  have z: "papers_attempted init_stats = papers_successful init_stats + papers_failed init_stats"
    by (simp add: init_stats_def)
  note t = batch_isolation [OF h, where output_dir = "''out''"
      and before = "[(''2504.13946'', ?g)]" and after = "[(''2504.13948'', ?g)]"
      and papers = "[(''2504.13946'', ?g), ?x]"]
  show ?thesis
    using t [THEN conjunct1] t [THEN conjunct2, THEN conjunct2, THEN conjunct2, THEN conjunct2] h z
    by (intro conjI) (assumption | blast)+
qed

lemma batch_example:
  "scrape_papers init_stats ''out''
     [(''2504.13946'', paper_with entry_meta entry_meta True),
      (''2504.13947'', paper_with no_entry_meta no_entry_meta True),
      (''2504.13948'', paper_with entry_meta entry_meta True)]
   = init_stats\<lparr>papers_attempted := 3, papers_successful := 2, papers_failed := 1\<rparr>"
  by code_simp

end
